theory Spec2Isabelle
  imports Complex_Main "HOL-Library.AList" "HOL-Library.Sublist" "HOL-Library.Monad_Syntax"
begin

section \<open>Python values and exceptions\<close>

text \<open>
  The calendar API hands the script JSON-shaped data: \<open>None\<close>, booleans, integers,
  strings, lists and dictionaries with string keys. A dictionary is an association list
  in insertion order; lookups read the first binding of a key, stores replace it in place
  or append a new one, as a Python \<open>dict\<close> does. Strings are lists of 8-bit characters
  (the ASCII part of Python's \<open>str\<close>).
\<close>

datatype pyval =
    VNone
  | VBool bool
  | VInt int
  | VStr string
  | VList "pyval list"
  | VDict "(string \<times> pyval) list"

text \<open>Every exception the modelled functions can raise is a value.\<close>

datatype error =
    AttributeError
  | IndexError
  | KeyError
  | TypeError
  | ValueError
  | AssertionError string

type_synonym pydict = "(string \<times> pyval) list"

text \<open>\<open>d.get(k, default)\<close> on a dictionary.\<close>

definition dict_get :: "pydict \<Rightarrow> string \<Rightarrow> pyval \<Rightarrow> pyval" where
  "dict_get d k dflt = (case map_of d k of None \<Rightarrow> dflt | Some v \<Rightarrow> v)"

text \<open>\<open>d[k]\<close> on a dictionary: a missing key raises \<open>KeyError\<close>.\<close>

definition dict_item :: "pydict \<Rightarrow> string \<Rightarrow> error + pyval" where
  "dict_item d k = (case map_of d k of None \<Rightarrow> Inl KeyError | Some v \<Rightarrow> Inr v)"

text \<open>\<open>del d[k]\<close>: a missing key raises \<open>KeyError\<close>.\<close>

definition dict_del :: "pydict \<Rightarrow> string \<Rightarrow> error + pydict" where
  "dict_del d k = (case map_of d k of None \<Rightarrow> Inl KeyError | Some _ \<Rightarrow> Inr (AList.delete k d))"

text \<open>
  \<open>x.get(k, default)\<close> on an arbitrary value: only dictionaries have the method, every
  other value of the model raises \<open>AttributeError\<close>.
\<close>

definition py_get :: "pyval \<Rightarrow> string \<Rightarrow> pyval \<Rightarrow> error + pyval" where
  "py_get x k dflt = (case x of VDict d \<Rightarrow> Inr (dict_get d k dflt) | _ \<Rightarrow> Inl AttributeError)"

text \<open>
  \<open>x[k]\<close> with a string \<open>k\<close>: a dictionary looks the key up; strings and lists want
  integer indices and the other values are not subscriptable, both a \<open>TypeError\<close>.
\<close>

definition py_item :: "pyval \<Rightarrow> string \<Rightarrow> error + pyval" where
  "py_item x k = (case x of VDict d \<Rightarrow> dict_item d k | _ \<Rightarrow> Inl TypeError)"

text \<open>Python's truth value of an object, as \<open>if x\<close> tests it.\<close>

fun truthy :: "pyval \<Rightarrow> bool" where
  "truthy VNone = False"
| "truthy (VBool b) = b"
| "truthy (VInt i) = (i \<noteq> 0)"
| "truthy (VStr s) = (s \<noteq> [])"
| "truthy (VList xs) = (xs \<noteq> [])"
| "truthy (VDict d) = (d \<noteq> [])"

text \<open>
  \<open>for aa in x\<close>: a list yields its elements, a string its characters, a dictionary its
  keys; the other values are not iterable.
\<close>

definition py_iter :: "pyval \<Rightarrow> error + pyval list" where
  "py_iter x = (case x of
      VList xs \<Rightarrow> Inr xs
    | VStr s \<Rightarrow> Inr (map (\<lambda>c. VStr [c]) s)
    | VDict d \<Rightarrow> Inr (map (\<lambda>p. VStr (fst p)) d)
    | _ \<Rightarrow> Inl TypeError)"

section \<open>Event normalizer\<close>

definition DEFAULT_STATUS :: string where
  "DEFAULT_STATUS = ''busy''"

text \<open>A key is a string or a tuple of strings (\<open>Union[tuple, str]\<close>).\<close>

datatype keyname = KStr string | KTuple "string list"

text \<open>
  \<open>read_value\<close> after its first statement, which turns a string key into a one-element
  tuple. The method \<open>d.get\<close> is looked up before \<open>key[0]\<close> is evaluated, so a value that
  is not a dictionary raises \<open>AttributeError\<close> even for the empty tuple; on a dictionary
  the empty tuple raises \<open>IndexError\<close> at \<open>key[0]\<close>.
\<close>

fun read_value_tuple :: "pyval \<Rightarrow> string list \<Rightarrow> error + pyval" where
  "read_value_tuple d [] = (case d of VDict _ \<Rightarrow> Inl IndexError | _ \<Rightarrow> Inl AttributeError)"
| "read_value_tuple d [k] = py_get d k (VStr [])"
| "read_value_tuple d (k # k' # ks) =
     (case py_get d k (VDict []) of
        Inl e \<Rightarrow> Inl e
      | Inr d' \<Rightarrow> read_value_tuple d' (k' # ks))"

definition read_value :: "pyval \<Rightarrow> keyname \<Rightarrow> error + pyval" where
  "read_value d key = (case key of
      KStr k \<Rightarrow> read_value_tuple d [k]
    | KTuple ks \<Rightarrow> read_value_tuple d ks)"

definition get_key :: "keyname \<Rightarrow> error + string" where
  "get_key keyname = (case keyname of
      KStr k \<Rightarrow> Inr k
    | KTuple [] \<Rightarrow> Inl IndexError
    | KTuple (k # _) \<Rightarrow> Inr k)"

text \<open>
  The list comprehension of \<open>get_my_response_status\<close>: for each attendee the filter
  \<open>aa.get('self', False)\<close> is evaluated first, then the element
  \<open>aa.get(response_key, '')\<close>. The whole list is built before \<open>[0]\<close> is taken.
\<close>

fun self_responses :: "pyval list \<Rightarrow> string \<Rightarrow> error + pyval list" where
  "self_responses [] response_key = Inr []"
| "self_responses (aa # rest) response_key =
     (case py_get aa ''self'' (VBool False) of
        Inl e \<Rightarrow> Inl e
      | Inr flag \<Rightarrow>
          if truthy flag then
            (case py_get aa response_key (VStr []) of
               Inl e \<Rightarrow> Inl e
             | Inr r \<Rightarrow>
                 (case self_responses rest response_key of
                    Inl e \<Rightarrow> Inl e
                  | Inr rs \<Rightarrow> Inr (r # rs)))
          else self_responses rest response_key)"

definition get_my_response_status :: "pydict \<Rightarrow> string \<Rightarrow> string \<Rightarrow> error + pyval" where
  "get_my_response_status event attendees_key response_key =
     (case dict_item event attendees_key of
        Inl e \<Rightarrow> Inl e
      | Inr attendees \<Rightarrow>
          (case py_iter attendees of
             Inl e \<Rightarrow> Inl e
           | Inr xs \<Rightarrow>
               (case self_responses xs response_key of
                  Inl e \<Rightarrow> Inl e
                | Inr [] \<Rightarrow> Inl IndexError
                | Inr (r # _) \<Rightarrow> Inr r)))"

text \<open>
  The dictionary comprehension \<open>{get_key(kk): read_value(ee, kk) for kk in keys}\<close>:
  keys are visited in order, the key expression is evaluated before the value, and a
  repeated key keeps its first position with the later value.
\<close>

fun build_clean :: "keyname list \<Rightarrow> pyval \<Rightarrow> pydict \<Rightarrow> error + pydict" where
  "build_clean [] ee acc = Inr acc"
| "build_clean (kk # kks) ee acc =
     (case get_key kk of
        Inl e \<Rightarrow> Inl e
      | Inr k \<Rightarrow>
          (case read_value ee kk of
             Inl e \<Rightarrow> Inl e
           | Inr v \<Rightarrow> build_clean kks ee (AList.update k v acc)))"

definition attendees_key :: string where
  "attendees_key = ''attendees''"

definition response_key :: string where
  "response_key = ''responseStatus''"

text \<open>
  One iteration of the loop of \<open>clean_events\<close>: \<open>Inr None\<close> is \<open>continue\<close>,
  \<open>Inr (Some r)\<close> appends \<open>r\<close>, \<open>Inl e\<close> is an exception leaving the function.
  The \<open>or\<close> of the first test short-circuits: \<open>ee['status']\<close> is read only when the
  event is not transparent.
\<close>

definition clean_event :: "keyname list \<Rightarrow> pyval \<Rightarrow> error + pyval option" where
  "clean_event keys ee =
     (case py_get ee ''transparency'' (VStr []) of
        Inl e \<Rightarrow> Inl e
      | Inr transparency \<Rightarrow>
          if transparency = VStr ''transparent'' then Inr None
          else
            (case py_item ee ''status'' of
               Inl e \<Rightarrow> Inl e
             | Inr status \<Rightarrow>
                 if status \<noteq> VStr ''confirmed'' then Inr None
                 else
                   (case build_clean keys ee [] of
                      Inl e \<Rightarrow> Inl e
                    | Inr ee_clean \<Rightarrow>
                        (case get_my_response_status ee_clean attendees_key response_key of
                           Inl e \<Rightarrow> Inl e
                         | Inr my_status \<Rightarrow>
                             if my_status \<noteq> VStr ''accepted'' then Inr None
                             else
                               (case dict_del (AList.update response_key my_status ee_clean)
                                       attendees_key of
                                  Inl e \<Rightarrow> Inl e
                                | Inr ee_clean' \<Rightarrow>
                                    if dict_get ee_clean' ''visibility'' (VStr []) = VStr ''private''
                                    then Inr (Some (VDict
                                           (AList.update ''summary'' (VStr DEFAULT_STATUS) ee_clean')))
                                    else Inr (Some (VDict ee_clean')))))))"

fun clean_events_loop :: "keyname list \<Rightarrow> pyval list \<Rightarrow> pyval list \<Rightarrow> error + pyval list" where
  "clean_events_loop keys [] events_clean = Inr events_clean"
| "clean_events_loop keys (ee # rest) events_clean =
     (case clean_event keys ee of
        Inl e \<Rightarrow> Inl e
      | Inr None \<Rightarrow> clean_events_loop keys rest events_clean
      | Inr (Some ee_clean) \<Rightarrow> clean_events_loop keys rest (events_clean @ [ee_clean]))"

definition clean_events_keys :: "pyval list \<Rightarrow> keyname list \<Rightarrow> error + pyval list" where
  "clean_events_keys events keys = clean_events_loop keys events []"

text \<open>The default value of the parameter \<open>keys\<close>.\<close>

definition default_keys :: "keyname list" where
  "default_keys =
     [KStr ''summary'',
      KTuple [''start'', ''dateTime''],
      KTuple [''end'', ''dateTime''],
      KStr ''status'',
      KStr ''transparency'',
      KStr ''visibility'',
      KStr ''attendees'']"

definition clean_events :: "pyval list \<Rightarrow> error + pyval list" where
  "clean_events events = clean_events_keys events default_keys"

section \<open>Timestamps\<close>

text \<open>
  A \<open>datetime\<close> object: the calendar fields and \<open>tzinfo\<close>, \<open>None\<close> for a naive value and
  otherwise the UTC offset of the attached timezone in microseconds (\<open>pytz.UTC\<close> and
  \<open>timezone.utc\<close> are offset \<open>0\<close>).
\<close>

record datetime =
  year :: nat
  month :: nat
  day :: nat
  hour :: nat
  minute :: nat
  second :: nat
  microsecond :: nat
  tzinfo :: "int option"

subsection \<open>Calendar arithmetic of the \<open>datetime\<close> module\<close>

definition is_leap :: "nat \<Rightarrow> bool" where
  "is_leap y = (y mod 4 = 0 \<and> (y mod 100 \<noteq> 0 \<or> y mod 400 = 0))"

definition days_before_year :: "nat \<Rightarrow> int" where
  "days_before_year y = (let p = int y - 1 in p * 365 + p div 4 - p div 100 + p div 400)"

definition days_in_month :: "nat \<Rightarrow> nat \<Rightarrow> nat" where
  "days_in_month y m =
     (if m = 2 \<and> is_leap y then 29
      else [0, 31, 28, 31, 30, 31, 30, 31, 31, 30, 31, 30, 31] ! m)"

definition days_before_month :: "nat \<Rightarrow> nat \<Rightarrow> int" where
  "days_before_month y m =
     [0, 0, 31, 59, 90, 120, 151, 181, 212, 243, 273, 304, 334] ! m
       + (if m > 2 \<and> is_leap y then 1 else 0)"

definition toordinal :: "datetime \<Rightarrow> int" where
  "toordinal dt =
     days_before_year (year dt) + days_before_month (year dt) (month dt) + int (day dt)"

text \<open>The wall-clock reading in microseconds since the start of day 0 of the ordinal count.\<close>

definition wall_us :: "datetime \<Rightarrow> int" where
  "wall_us dt =
     (((toordinal dt * 24 + int (hour dt)) * 60 + int (minute dt)) * 60 + int (second dt)) * 1000000
       + int (microsecond dt)"

text \<open>
  The checks of the constructor \<open>datetime(...)\<close> and of \<open>timezone(offset)\<close>: a field out
  of range raises \<open>ValueError\<close>; an offset must lie strictly within 24 hours.
\<close>

definition valid_datetime :: "datetime \<Rightarrow> bool" where
  "valid_datetime dt =
     (1 \<le> year dt \<and> year dt \<le> 9999 \<and> 1 \<le> month dt \<and> month dt \<le> 12 \<and>
      1 \<le> day dt \<and> day dt \<le> days_in_month (year dt) (month dt) \<and>
      hour dt \<le> 23 \<and> minute dt \<le> 59 \<and> second dt \<le> 59 \<and> microsecond dt \<le> 999999 \<and>
      (case tzinfo dt of None \<Rightarrow> True | Some off \<Rightarrow> \<bar>off\<bar> < 86400 * 1000000))"

text \<open>
  \<open>a - b\<close> on two \<open>datetime\<close> values, as a number of microseconds: both naive, or both
  aware (then the UTC offsets are taken off first); mixing the two raises \<open>TypeError\<close>.
  \<open>a <= b\<close> follows the same rule.
\<close>

definition dt_sub :: "datetime \<Rightarrow> datetime \<Rightarrow> error + int" where
  "dt_sub a b =
     (case tzinfo a of
        None \<Rightarrow> (case tzinfo b of None \<Rightarrow> Inr (wall_us a - wall_us b) | Some _ \<Rightarrow> Inl TypeError)
      | Some oa \<Rightarrow>
          (case tzinfo b of
             None \<Rightarrow> Inl TypeError
           | Some ob \<Rightarrow> Inr ((wall_us a - oa) - (wall_us b - ob))))"

definition dt_le :: "datetime \<Rightarrow> datetime \<Rightarrow> error + bool" where
  "dt_le a b =
     (case tzinfo a of
        None \<Rightarrow> (case tzinfo b of None \<Rightarrow> Inr (wall_us a \<le> wall_us b) | Some _ \<Rightarrow> Inl TypeError)
      | Some oa \<Rightarrow>
          (case tzinfo b of
             None \<Rightarrow> Inl TypeError
           | Some ob \<Rightarrow> Inr (wall_us a - oa \<le> wall_us b - ob)))"

subsection \<open>The library parser \<open>datetime.strptime\<close>\<close>

text \<open>
  \<open>datetime.strptime\<close> turns the format into a regular expression, one group per
  directive, and matches it against the string. The groups this script can ask for are
  \<^item> \<open>%Y\<close>: \<open>\d\d\d\d\<close>
  \<^item> \<open>%m\<close>: \<open>1[0-2]|0[1-9]|[1-9]\<close>
  \<^item> \<open>%d\<close>: \<open>3[0-1]|[1-2]\d|0[1-9]|[1-9]| [1-9]\<close>
  \<^item> \<open>%H\<close>: \<open>2[0-3]|[0-1]\d|\d\<close>
  \<^item> \<open>%M\<close>: \<open>[0-5]\d|\d\<close>
  \<^item> \<open>%S\<close>: \<open>6[0-1]|[0-5]\d|\d\<close>
  \<^item> \<open>%f\<close>: \<open>[0-9]{1,6}\<close>
  \<^item> \<open>%z\<close>: a sign, two digits of hours, two digits of minutes, the first in \<open>0-5\<close>.

  The alternatives of a group are tried in order. Every group is followed by a literal
  that is not a digit, by a sign, or by the end of the pattern, so taking the first
  alternative that matches is what the backtracking matcher finds. The expression is
  compiled ignoring case, which matters for the letters \<open>T\<close> and \<open>Z\<close> of the format.
  A string that does not match, or is longer than its match, raises \<open>ValueError\<close>.
  Digits are the ASCII digits.
\<close>

definition digit_val :: "char \<Rightarrow> nat option" where
  "digit_val c =
     (if 48 \<le> (of_char c :: nat) \<and> (of_char c :: nat) \<le> 57 then Some (of_char c - 48) else None)"

definition lit :: "char \<Rightarrow> string \<Rightarrow> string option" where
  "lit c s = (case s of [] \<Rightarrow> None | x # r \<Rightarrow> if x = c then Some r else None)"

definition lit_ci :: "char \<Rightarrow> char \<Rightarrow> string \<Rightarrow> string option" where
  "lit_ci upper lower s =
     (case s of [] \<Rightarrow> None | x # r \<Rightarrow> if x = upper \<or> x = lower then Some r else None)"

definition one_digit :: "(nat \<Rightarrow> bool) \<Rightarrow> string \<Rightarrow> (nat \<times> string) option" where
  "one_digit P s =
     (case s of
        [] \<Rightarrow> None
      | a # r \<Rightarrow>
          (case digit_val a of
             None \<Rightarrow> None
           | Some x \<Rightarrow> if P x then Some (x, r) else None))"

definition two_digits :: "(nat \<Rightarrow> nat \<Rightarrow> bool) \<Rightarrow> string \<Rightarrow> (nat \<times> string) option" where
  "two_digits P s =
     (case s of
        [] \<Rightarrow> None
      | a # s' \<Rightarrow>
          (case s' of
             [] \<Rightarrow> None
           | b # r \<Rightarrow>
               (case digit_val a of
                  None \<Rightarrow> None
                | Some x \<Rightarrow>
                    (case digit_val b of
                       None \<Rightarrow> None
                     | Some y \<Rightarrow> if P x y then Some (10 * x + y, r) else None))))"

definition re_alt ::
  "(string \<Rightarrow> ('a \<times> string) option) \<Rightarrow> (string \<Rightarrow> ('a \<times> string) option) \<Rightarrow>
   string \<Rightarrow> ('a \<times> string) option" where
  "re_alt p q s = (case p s of None \<Rightarrow> q s | Some r \<Rightarrow> Some r)"

definition re_Y :: "string \<Rightarrow> (nat \<times> string) option" where
  "re_Y s = do {
     (hi, s) \<leftarrow> two_digits (\<lambda>x y. True) s;
     (lo, s) \<leftarrow> two_digits (\<lambda>x y. True) s;
     Some (100 * hi + lo, s)
   }"

definition re_m :: "string \<Rightarrow> (nat \<times> string) option" where
  "re_m =
     re_alt (two_digits (\<lambda>x y. x = 1 \<and> y \<le> 2))
       (re_alt (two_digits (\<lambda>x y. x = 0 \<and> 1 \<le> y))
          (one_digit (\<lambda>x. 1 \<le> x)))"

definition re_d :: "string \<Rightarrow> (nat \<times> string) option" where
  "re_d =
     re_alt (two_digits (\<lambda>x y. x = 3 \<and> y \<le> 1))
       (re_alt (two_digits (\<lambda>x y. 1 \<le> x \<and> x \<le> 2))
          (re_alt (two_digits (\<lambda>x y. x = 0 \<and> 1 \<le> y))
             (re_alt (one_digit (\<lambda>x. 1 \<le> x))
                (\<lambda>s. do { s \<leftarrow> lit CHR '' '' s; one_digit (\<lambda>x. 1 \<le> x) s }))))"

definition re_H :: "string \<Rightarrow> (nat \<times> string) option" where
  "re_H =
     re_alt (two_digits (\<lambda>x y. x = 2 \<and> y \<le> 3))
       (re_alt (two_digits (\<lambda>x y. x \<le> 1))
          (one_digit (\<lambda>x. True)))"

definition re_M :: "string \<Rightarrow> (nat \<times> string) option" where
  "re_M = re_alt (two_digits (\<lambda>x y. x \<le> 5)) (one_digit (\<lambda>x. True))"

definition re_S :: "string \<Rightarrow> (nat \<times> string) option" where
  "re_S =
     re_alt (two_digits (\<lambda>x y. x = 6 \<and> y \<le> 1))
       (re_alt (two_digits (\<lambda>x y. x \<le> 5))
          (one_digit (\<lambda>x. True)))"

text \<open>
  \<open>%f\<close> takes up to six digits and pads them on the right with zeros:
  \<open>s += "0" * (6 - len(s)); fraction = int(s)\<close>.
\<close>

fun take_digits :: "nat \<Rightarrow> string \<Rightarrow> nat list \<times> string" where
  "take_digits 0 s = ([], s)"
| "take_digits (Suc n) [] = ([], [])"
| "take_digits (Suc n) (c # r) =
     (case digit_val c of
        None \<Rightarrow> ([], c # r)
      | Some x \<Rightarrow> (case take_digits n r of (ds, r') \<Rightarrow> (x # ds, r')))"

definition re_f :: "string \<Rightarrow> (nat \<times> string) option" where
  "re_f s =
     (case take_digits 6 s of
        ([], _) \<Rightarrow> None
      | (d # ds, r) \<Rightarrow>
          Some (foldl (\<lambda>a x. 10 * a + x) 0 (d # ds) * 10 ^ (6 - length (d # ds)), r))"

text \<open>
  \<open>%z\<close>, in the form the script hands over. The script adds \<open>%z\<close> to the format only
  after the last six characters matched sign, two digits, colon, two digits, and it
  removes that colon; the string then ends in a sign and four digits, and since the
  expression of \<open>%z\<close> holds a single sign, at its start, its longer forms (a colon,
  seconds, a fraction, the letter \<open>Z\<close>) cannot match up to the end of such a string.
  The result is the offset in seconds: \<open>gmtoff = hours * 3600 + minutes * 60\<close>, negated
  after a minus sign.
\<close>

definition re_z :: "string \<Rightarrow> (int \<times> string) option" where
  "re_z s =
     (case s of
        [] \<Rightarrow> None
      | c # s \<Rightarrow>
          if c = CHR ''+'' \<or> c = CHR ''-'' then do {
            (hours, s) \<leftarrow> two_digits (\<lambda>x y. True) s;
            (minutes, s) \<leftarrow> two_digits (\<lambda>x y. x \<le> 5) s;
            Some ((if c = CHR ''-'' then - 1 else 1) * int (hours * 3600 + minutes * 60), s)
          }
          else None)"

text \<open>
  The eight formats the script can build: \<open>'%Y-%m-%dT%H:%M:%S'\<close>, then \<open>'.%f'\<close> or not,
  then nothing, the literal \<open>'Z'\<close>, or \<open>'%z'\<close>.
\<close>

datatype suffix = NoSuffix | LitZ | PctZ

definition parse_date :: "string \<Rightarrow> (datetime \<times> string) option" where
  "parse_date s = do {
     (y, s) \<leftarrow> re_Y s;
     s \<leftarrow> lit CHR ''-'' s;
     (m, s) \<leftarrow> re_m s;
     s \<leftarrow> lit CHR ''-'' s;
     (d, s) \<leftarrow> re_d s;
     s \<leftarrow> lit_ci CHR ''T'' CHR ''t'' s;
     Some (\<lparr>year = y, month = m, day = d, hour = 0, minute = 0, second = 0,
            microsecond = 0, tzinfo = None\<rparr>, s)
   }"

definition parse_time :: "datetime \<Rightarrow> string \<Rightarrow> (datetime \<times> string) option" where
  "parse_time dt s = do {
     (h, s) \<leftarrow> re_H s;
     s \<leftarrow> lit CHR '':'' s;
     (mi, s) \<leftarrow> re_M s;
     s \<leftarrow> lit CHR '':'' s;
     (sec, s) \<leftarrow> re_S s;
     Some (dt\<lparr>hour := h, minute := mi, second := sec\<rparr>, s)
   }"

definition parse_fraction :: "bool \<Rightarrow> datetime \<Rightarrow> string \<Rightarrow> (datetime \<times> string) option" where
  "parse_fraction has_fraction dt s =
     (if has_fraction then do {
        s \<leftarrow> lit CHR ''.'' s;
        (f, s) \<leftarrow> re_f s;
        Some (dt\<lparr>microsecond := f\<rparr>, s)
      }
      else Some (dt, s))"

definition parse_suffix :: "suffix \<Rightarrow> datetime \<Rightarrow> string \<Rightarrow> (datetime \<times> string) option" where
  "parse_suffix sfx dt s =
     (case sfx of
        NoSuffix \<Rightarrow> Some (dt, s)
      | LitZ \<Rightarrow> do { s \<leftarrow> lit_ci CHR ''Z'' CHR ''z'' s; Some (dt, s) }
      | PctZ \<Rightarrow> do { (gmtoff, s) \<leftarrow> re_z s; Some (dt\<lparr>tzinfo := Some (gmtoff * 1000000)\<rparr>, s) })"

definition parse_all :: "string \<Rightarrow> bool \<Rightarrow> suffix \<Rightarrow> (datetime \<times> string) option" where
  "parse_all s has_fraction sfx = do {
     (dt, s) \<leftarrow> parse_date s;
     (dt, s) \<leftarrow> parse_time dt s;
     (dt, s) \<leftarrow> parse_fraction has_fraction dt s;
     parse_suffix sfx dt s
   }"

text \<open>
  After the match: \<open>unconverted data remains\<close> when the string is longer than the match,
  then the constructor's range checks.
\<close>

definition datetime_strptime :: "string \<Rightarrow> bool \<Rightarrow> suffix \<Rightarrow> error + datetime" where
  "datetime_strptime s has_fraction sfx =
     (case parse_all s has_fraction sfx of
        None \<Rightarrow> Inl ValueError
      | Some (dt, rest) \<Rightarrow> if rest = [] \<and> valid_datetime dt then Inr dt else Inl ValueError)"

subsection \<open>The script's \<open>strptime\<close>\<close>

text \<open>
  \<open>re.match(r'[\+\-]\d{2}:\d{2}', t)\<close>: a match at the start of \<open>t\<close>.
\<close>

definition is_digit :: "char \<Rightarrow> bool" where
  "is_digit c = (digit_val c \<noteq> None)"

fun offset_suffix :: "string \<Rightarrow> bool" where
  "offset_suffix (a # b # c # d # e # f # _) =
     ((a = CHR ''+'' \<or> a = CHR ''-'') \<and> is_digit b \<and> is_digit c \<and> d = CHR '':'' \<and>
      is_digit e \<and> is_digit f)"
| "offset_suffix _ = False"

text \<open>The slices \<open>s[-6::]\<close> and \<open>s[:-6:]\<close>; on a string shorter than six they are \<open>s\<close> and \<open>''\<close>.\<close>

definition last6 :: "string \<Rightarrow> string" where
  "last6 s = drop (length s - 6) s"

definition but_last6 :: "string \<Rightarrow> string" where
  "but_last6 s = take (length s - 6) s"

text \<open>
  The format string is represented by what is appended to \<open>'%Y-%m-%dT%H:%M:%S'\<close>.
  \<open>str_time[-1]\<close> on the empty string raises \<open>IndexError\<close>.
\<close>

definition strptime :: "string \<Rightarrow> error + datetime" where
  "strptime str_time =
     (let has_fraction = (length str_time \<ge> 20 \<and> str_time ! 19 = CHR ''.'') in
      if str_time = [] then Inl IndexError
      else if last str_time = CHR ''Z'' then
        (case datetime_strptime str_time has_fraction LitZ of
           Inl e \<Rightarrow> Inl e
         | Inr dt \<Rightarrow> Inr (dt\<lparr>tzinfo := Some 0\<rparr>))
      else if offset_suffix (last6 str_time) then
        datetime_strptime
          (but_last6 str_time @ filter (\<lambda>c. c \<noteq> CHR '':'') (last6 str_time)) has_fraction PctZ
      else datetime_strptime str_time has_fraction NoSuffix)"

text \<open>
  \<open>strptime\<close> applied to a value that is not a string: \<open>len\<close> fails on \<open>None\<close>, booleans
  and integers; a list fails at \<open>[-1]\<close> when empty and otherwise inside \<open>re.match\<close> or
  \<open>datetime.strptime\<close>, which want a string; a dictionary has no integer key.
\<close>

definition strptime_val :: "pyval \<Rightarrow> error + datetime" where
  "strptime_val v =
     (case v of
        VStr s \<Rightarrow> strptime s
      | VList xs \<Rightarrow> if xs = [] then Inl IndexError else Inl TypeError
      | VDict d \<Rightarrow> Inl KeyError
      | _ \<Rightarrow> Inl TypeError)"

section \<open>Numbers\<close>

text \<open>
  \<open>minutes_before\<close> is annotated \<open>float\<close> and the repository passes both (\<open>5.0\<close> by default,
  \<open>14\<close>, \<open>15\<close>, \<open>-1\<close> in the tests): a number is a Python \<open>int\<close> or a \<open>float\<close>. A \<open>float\<close> is
  a double: a rational value, an infinity or NaN. \<open>FVal q\<close> stands for a double when \<open>q\<close> is
  one of the representable values, the ones \<open>round_double\<close> leaves unchanged; the sign of
  a zero is not kept, no operation below tells \<open>-0.0\<close> from \<open>0.0\<close>.
\<close>

datatype pyfloat = FVal rat | FInf | FNegInf | FNaN

datatype pynum = PInt int | PFloat pyfloat

text \<open>
  Rounding a rational to the nearest double, ties to the even significand, as IEEE 754
  arithmetic and Python's true division of integers do: \<open>ilog2 a\<close> is the exponent of the
  binade of \<open>a > 0\<close> (\<open>bit_length\<close> is \<open>int.bit_length\<close>), the spacing of the doubles there
  is \<open>2 powi (e - 52)\<close>, with the exponent no lower than \<open>-1022\<close> (subnormal values), and
  a result of \<open>2 ^ 1024\<close> or more overflows.
\<close>

function bit_length :: "int \<Rightarrow> nat" where
  "bit_length n = (if n \<le> 0 then 0 else Suc (bit_length (n div 2)))"
  by pat_completeness auto
termination
  by (relation "measure nat") auto

declare bit_length.simps [simp del]

definition round_half_even :: "rat \<Rightarrow> int" where
  "round_half_even x =
     (let f = \<lfloor>x\<rfloor>; r = x - of_int f in
      if r < 1 / 2 then f else if 1 / 2 < r then f + 1 else if even f then f else f + 1)"

definition ilog2 :: "rat \<Rightarrow> int" where
  "ilog2 q =
     (if 1 \<le> q then int (bit_length \<lfloor>q\<rfloor>) - 1
      else - int (bit_length (\<lceil>1 / q\<rceil> - 1)))"

definition round_double :: "rat \<Rightarrow> pyfloat" where
  "round_double q =
     (if q = 0 then FVal 0
      else
        let a = \<bar>q\<bar>;
            e = max (ilog2 a) (- 1022);
            u = 2 powi (e - 52);
            m = of_int (round_half_even (a / u)) * u
        in if 2 ^ 1024 \<le> m then (if 0 < q then FInf else FNegInf)
           else FVal (if 0 < q then m else - m))"

text \<open>
  \<open>x >= 0\<close>, false for NaN. \<open>x * 60\<close>: exact on an \<open>int\<close>, the rounded product on a
  \<open>float\<close> (\<open>60\<close> is converted to \<open>60.0\<close>; infinities and NaN stay what they are).
  \<open>x <= y\<close> with a \<open>float\<close> on the left: Python compares a finite \<open>float\<close> with an \<open>int\<close>
  by their exact values; every comparison with NaN is false.
\<close>

definition ge_zero :: "pynum \<Rightarrow> bool" where
  "ge_zero x =
     (case x of
        PInt i \<Rightarrow> 0 \<le> i
      | PFloat f \<Rightarrow>
          (case f of FVal a \<Rightarrow> 0 \<le> a | FInf \<Rightarrow> True | FNegInf \<Rightarrow> False | FNaN \<Rightarrow> False))"

definition times_60 :: "pynum \<Rightarrow> pynum" where
  "times_60 x =
     (case x of
        PInt i \<Rightarrow> PInt (i * 60)
      | PFloat f \<Rightarrow> PFloat (case f of FVal a \<Rightarrow> round_double (a * 60) | _ \<Rightarrow> f))"

definition float_le :: "pyfloat \<Rightarrow> pynum \<Rightarrow> bool" where
  "float_le x y =
     (case x of
        FVal a \<Rightarrow>
          (case y of
             PInt n \<Rightarrow> a \<le> of_int n
           | PFloat g \<Rightarrow>
               (case g of FVal b \<Rightarrow> a \<le> b | FInf \<Rightarrow> True | FNegInf \<Rightarrow> False | FNaN \<Rightarrow> False))
      | FInf \<Rightarrow> (case y of PInt n \<Rightarrow> False | PFloat g \<Rightarrow> g = FInf)
      | FNegInf \<Rightarrow> (case y of PInt n \<Rightarrow> True | PFloat g \<Rightarrow> g \<noteq> FNaN)
      | FNaN \<Rightarrow> False)"

text \<open>
  \<open>timedelta.total_seconds()\<close>: the difference, a whole number of microseconds, divided
  by \<open>10**6\<close> with Python's true division, which returns the double nearest to the
  quotient. A \<open>timedelta\<close> stays below \<open>10**9\<close> days, far from overflow.
\<close>

definition total_seconds :: "int \<Rightarrow> pyfloat" where
  "total_seconds us = round_double (of_int us / 1000000)"

section \<open>Window evaluator\<close>

text \<open>
  \<open>now\<close> may be \<open>None\<close>, as in the repository's test; subtracting \<open>None\<close> raises
  \<open>TypeError\<close>. \<open>in_window\<close> is the condition of the inner \<open>if\<close>: the double
  \<open>(start_dt - now).total_seconds()\<close> is compared with \<open>minutes_before*60\<close>; \<open>or\<close> and \<open>and\<close>
  evaluate from the left and stop early, and a comparison that is not evaluated cannot
  raise.
\<close>

definition MINUTES_BEFORE :: pynum where
  "MINUTES_BEFORE = PFloat (FVal 5)"

definition assert_message :: string where
  "assert_message = ''`minutes_before` must be a non-negative number.''"

definition in_window :: "datetime \<Rightarrow> datetime \<Rightarrow> datetime \<Rightarrow> pynum \<Rightarrow> error + bool" where
  "in_window now start_dt end_dt minutes_before =
     (case dt_sub start_dt now of
        Inl e \<Rightarrow> Inl e
      | Inr delta \<Rightarrow>
          (case (if float_le (total_seconds delta) (times_60 minutes_before) then Inr True
                 else dt_le start_dt now) of
             Inl e \<Rightarrow> Inl e
           | Inr near \<Rightarrow> if near then dt_le now end_dt else Inr False))"

definition is_within_next_event :: "datetime option \<Rightarrow> pyval \<Rightarrow> pynum \<Rightarrow> error + bool" where
  "is_within_next_event now next_event minutes_before =
     (if \<not> ge_zero minutes_before then Inl (AssertionError assert_message)
      else if truthy next_event then
        (case py_item next_event ''start'' of
           Inl e \<Rightarrow> Inl e
         | Inr start_str \<Rightarrow>
             (case strptime_val start_str of
                Inl e \<Rightarrow> Inl e
              | Inr start_dt \<Rightarrow>
                  (case py_item next_event ''end'' of
                     Inl e \<Rightarrow> Inl e
                   | Inr end_str \<Rightarrow>
                       (case strptime_val end_str of
                          Inl e \<Rightarrow> Inl e
                        | Inr end_dt \<Rightarrow>
                            (case now of
                               None \<Rightarrow> Inl TypeError
                             | Some now_dt \<Rightarrow> in_window now_dt start_dt end_dt minutes_before)))))
      else Inr False)"

section \<open>Vocabulary of the specification\<close>

text \<open>
  Following a key path through nested dictionaries: \<open>None\<close> when a key of the path is
  missing (or something that is not a dictionary stands in the way).
\<close>

fun lookup_path :: "pyval \<Rightarrow> string list \<Rightarrow> pyval option" where
  "lookup_path v [] = Some v"
| "lookup_path v (k # ks) =
     (case v of
        VDict d \<Rightarrow> (case map_of d k of None \<Rightarrow> None | Some v' \<Rightarrow> lookup_path v' ks)
      | _ \<Rightarrow> None)"

definition is_dict :: "pyval \<Rightarrow> bool" where
  "is_dict v = (case v of VDict _ \<Rightarrow> True | _ \<Rightarrow> False)"

text \<open>
  Every value reached at an intermediate key of the path, that is after a proper
  prefix of it, is a dictionary.
\<close>

definition inner_dicts :: "pyval \<Rightarrow> string list \<Rightarrow> bool" where
  "inner_dicts v ks =
     (\<forall>p \<in> set (prefixes ks). p \<noteq> ks \<longrightarrow>
        (case lookup_path v p of None \<Rightarrow> True | Some w \<Rightarrow> is_dict w))"

text \<open>
  The raw event of the data model: a dictionary whose \<open>start\<close> and \<open>end\<close>, when
  present, are dictionaries, and whose \<open>attendees\<close>, when present, is a list of attendee
  records, each a dictionary whose \<open>self\<close> flag, when present, is a boolean.
\<close>

definition nested_ok :: "pydict \<Rightarrow> string \<Rightarrow> bool" where
  "nested_ok d k = (case map_of d k of None \<Rightarrow> True | Some v \<Rightarrow> is_dict v)"

definition wf_attendee :: "pyval \<Rightarrow> bool" where
  "wf_attendee aa =
     (case aa of
        VDict a \<Rightarrow> (case map_of a ''self'' of None \<Rightarrow> True | Some v \<Rightarrow> (case v of VBool _ \<Rightarrow> True | _ \<Rightarrow> False))
      | _ \<Rightarrow> False)"

definition raw_attendees :: "pydict \<Rightarrow> pyval list" where
  "raw_attendees d = (case map_of d ''attendees'' of None \<Rightarrow> [] | Some v \<Rightarrow> (case v of VList xs \<Rightarrow> xs | _ \<Rightarrow> []))"

definition wf_raw_event :: "pyval \<Rightarrow> bool" where
  "wf_raw_event ee =
     (case ee of
        VDict d \<Rightarrow>
          nested_ok d ''start'' \<and> nested_ok d ''end'' \<and>
          (case map_of d ''attendees'' of
             None \<Rightarrow> True
           | Some v \<Rightarrow> (case v of VList xs \<Rightarrow> list_all wf_attendee xs | _ \<Rightarrow> False))
      | _ \<Rightarrow> False)"

text \<open>
  The self-attendee is the first attendee record whose \<open>self\<close> flag is true; the
  self-response is its \<open>responseStatus\<close>, the empty string when it has none.
\<close>

definition is_self :: "pyval \<Rightarrow> bool" where
  "is_self aa = (case aa of VDict a \<Rightarrow> map_of a ''self'' = Some (VBool True) | _ \<Rightarrow> False)"

definition response_of :: "pyval \<Rightarrow> pyval" where
  "response_of aa = (case aa of VDict a \<Rightarrow> dict_get a ''responseStatus'' (VStr []) | _ \<Rightarrow> VStr [])"

definition self_response :: "pydict \<Rightarrow> pyval option" where
  "self_response d = map_option response_of (find is_self (raw_attendees d))"

text \<open>
  The three filters in the words of the specification: transparency is not
  \<open>transparent\<close> (missing counts as opaque), status is exactly \<open>confirmed\<close>, the
  self-response is exactly \<open>accepted\<close>.
\<close>

definition is_busy :: "pydict \<Rightarrow> bool" where
  "is_busy d = (map_of d ''transparency'' \<noteq> Some (VStr ''transparent''))"

definition is_confirmed :: "pydict \<Rightarrow> bool" where
  "is_confirmed d = (map_of d ''status'' = Some (VStr ''confirmed''))"

definition kept :: "pyval \<Rightarrow> bool" where
  "kept ee =
     (case ee of
        VDict d \<Rightarrow> is_busy d \<and> is_confirmed d \<and> self_response d = Some (VStr ''accepted'')
      | _ \<Rightarrow> False)"

text \<open>
  The canonical record of a raw event: the seven fields in the order in which the
  output dictionary holds them, nested timestamps read with the empty string as default,
  the title replaced by the default status for a private event.
\<close>

definition nested_field :: "pydict \<Rightarrow> string \<Rightarrow> string \<Rightarrow> pyval" where
  "nested_field d k k' =
     (case map_of d k of
        None \<Rightarrow> VStr []
      | Some v \<Rightarrow> (case v of VDict n \<Rightarrow> dict_get n k' (VStr []) | _ \<Rightarrow> VStr []))"

definition canonical_event :: "pyval \<Rightarrow> pyval" where
  "canonical_event ee =
     (case ee of
        VDict d \<Rightarrow>
          VDict
            [(''summary'',
                if map_of d ''visibility'' = Some (VStr ''private'') then VStr DEFAULT_STATUS
                else dict_get d ''summary'' (VStr [])),
             (''start'', nested_field d ''start'' ''dateTime''),
             (''end'', nested_field d ''end'' ''dateTime''),
             (''status'', dict_get d ''status'' (VStr [])),
             (''transparency'', dict_get d ''transparency'' (VStr [])),
             (''visibility'', dict_get d ''visibility'' (VStr [])),
             (''responseStatus'', (case self_response d of None \<Rightarrow> VStr [] | Some r \<Rightarrow> r))]
      | _ \<Rightarrow> VNone)"

text \<open>
  The two shapes a record takes inside the loop body: the dictionary the comprehension
  builds from the default keys, and the record appended to the output.
\<close>

definition clean_record :: "pydict \<Rightarrow> pyval \<Rightarrow> pyval \<Rightarrow> pyval \<Rightarrow> pydict" where
  "clean_record d a b r =
     [(''summary'',
         if map_of d ''visibility'' = Some (VStr ''private'') then VStr DEFAULT_STATUS
         else dict_get d ''summary'' (VStr [])),
      (''start'', a),
      (''end'', b),
      (''status'', dict_get d ''status'' (VStr [])),
      (''transparency'', dict_get d ''transparency'' (VStr [])),
      (''visibility'', dict_get d ''visibility'' (VStr [])),
      (''responseStatus'', r)]"

definition comprehension :: "pydict \<Rightarrow> pyval \<Rightarrow> pyval \<Rightarrow> pydict" where
  "comprehension d a b =
     [(''summary'', dict_get d ''summary'' (VStr [])),
      (''start'', a),
      (''end'', b),
      (''status'', dict_get d ''status'' (VStr [])),
      (''transparency'', dict_get d ''transparency'' (VStr [])),
      (''visibility'', dict_get d ''visibility'' (VStr [])),
      (''attendees'', dict_get d ''attendees'' (VStr []))]"

text \<open>
  Side conditions on raw events, what the loop body does with an event, the title an
  output record is expected to carry, and the keys of a record in insertion order.
\<close>

definition has_status :: "pyval \<Rightarrow> bool" where
  "has_status ee = (case ee of VDict d \<Rightarrow> map_of d ''status'' \<noteq> None | _ \<Rightarrow> False)"

definition passes_first_two :: "pyval \<Rightarrow> bool" where
  "passes_first_two ee = (case ee of VDict d \<Rightarrow> is_busy d \<and> is_confirmed d | _ \<Rightarrow> False)"

definition has_self_attendee :: "pyval \<Rightarrow> bool" where
  "has_self_attendee ee = (case ee of VDict d \<Rightarrow> list_ex is_self (raw_attendees d) | _ \<Rightarrow> False)"

definition survives :: "pyval \<Rightarrow> bool" where
  "survives ee = (case clean_event default_keys ee of Inr (Some _) \<Rightarrow> True | _ \<Rightarrow> False)"

definition expected_summary :: "pyval \<Rightarrow> pyval" where
  "expected_summary ee =
     (case ee of
        VDict d \<Rightarrow>
          if map_of d ''visibility'' = Some (VStr ''private'') then VStr DEFAULT_STATUS
          else dict_get d ''summary'' (VStr [])
      | _ \<Rightarrow> VNone)"

definition canonical_keys :: "string list" where
  "canonical_keys =
     [''summary'', ''start'', ''end'', ''status'', ''transparency'', ''visibility'',
      ''responseStatus'']"

definition py_keys :: "pyval \<Rightarrow> string list" where
  "py_keys r = (case r of VDict c \<Rightarrow> map fst c | _ \<Rightarrow> [])"

text \<open>The event of the repository's test \<open>test_clean_events\<close> and variants of it.\<close>

definition sample_event :: pydict where
  "sample_event =
     [(''foo'', VInt 1),
      (''attendees'',
         VList [VDict [(''qwe'', VList [VInt 4, VInt 5]), (''self'', VBool False)],
                VDict [(''asd'', VList [VInt 6, VInt 7]), (''self'', VBool True),
                       (''responseStatus'', VStr ''accepted'')]]),
      (''end'', VDict [(''dateTime'', VStr ''2001-02-03T20:35:00''), (''baz'', VInt 3)]),
      (''start'', VDict [(''dateTime'', VStr ''2001-02-03T20:00:00''), (''bar'', VInt 2)]),
      (''status'', VStr ''confirmed''),
      (''summary'', VStr ''My event name''),
      (''transparency'', VStr ''not-transparent''),
      (''visibility'', VStr ''not-private'')]"

definition sample_clean :: pydict where
  "sample_clean =
     [(''summary'', VStr ''My event name''),
      (''start'', VStr ''2001-02-03T20:00:00''),
      (''end'', VStr ''2001-02-03T20:35:00''),
      (''status'', VStr ''confirmed''),
      (''transparency'', VStr ''not-transparent''),
      (''visibility'', VStr ''not-private''),
      (''responseStatus'', VStr ''accepted'')]"

definition sample_events :: "pyval list" where
  "sample_events =
     [VDict sample_event,
      VDict (AList.update ''status'' (VStr ''not-confirmed'') sample_event),
      VDict (AList.update ''transparency'' (VStr ''transparent'') sample_event),
      VDict (AList.update ''visibility'' (VStr ''private'') sample_event)]"

definition sample_cleaned :: "pyval list" where
  "sample_cleaned =
     [VDict sample_clean,
      VDict (AList.update ''visibility'' (VStr ''private'')
               (AList.update ''summary'' (VStr ''busy'') sample_clean))]"

section \<open>Vocabulary for timestamps\<close>

text \<open>
  Writing a timestamp: fields padded with zeros to their width, as the calendar service
  and \<open>isoformat()\<close> print them.
\<close>

definition digit_char :: "nat \<Rightarrow> char" where
  "digit_char n = ''0123456789'' ! n"

definition pad2 :: "nat \<Rightarrow> string" where
  "pad2 n = [digit_char (n div 10), digit_char (n mod 10)]"

definition pad4 :: "nat \<Rightarrow> string" where
  "pad4 n = pad2 (n div 100) @ pad2 (n mod 100)"

definition pad6 :: "nat \<Rightarrow> string" where
  "pad6 n = pad2 (n div 10000) @ pad2 (n div 100 mod 100) @ pad2 (n mod 100)"

definition iso_seconds :: "datetime \<Rightarrow> string" where
  "iso_seconds dt =
     pad4 (year dt) @ ''-'' @ pad2 (month dt) @ ''-'' @ pad2 (day dt) @ ''T'' @
     pad2 (hour dt) @ '':'' @ pad2 (minute dt) @ '':'' @ pad2 (second dt)"

definition iso_fraction :: "datetime \<Rightarrow> string" where
  "iso_fraction dt = ''.'' @ pad6 (microsecond dt)"

text \<open>An offset \<open>\<plusminus>HH:MM\<close> and the number of microseconds it stands for.\<close>

definition iso_offset :: "bool \<Rightarrow> nat \<Rightarrow> nat \<Rightarrow> string" where
  "iso_offset neg hh mm = (if neg then ''-'' else ''+'') @ pad2 hh @ '':'' @ pad2 mm"

definition offset_us :: "bool \<Rightarrow> nat \<Rightarrow> nat \<Rightarrow> int" where
  "offset_us neg hh mm = (if neg then - 1 else 1) * int (hh * 3600 + mm * 60) * 1000000"

text \<open>The absolute instant of an aware value: its wall-clock reading less its UTC offset.\<close>

definition instant :: "datetime \<Rightarrow> int" where
  "instant dt = wall_us dt - (case tzinfo dt of None \<Rightarrow> 0 | Some off \<Rightarrow> off)"


text \<open>
  Numbers in the words of the specification: a negative number; a \<open>float\<close> at most a
  rational; and the window \<open>minutes_before*60\<close> when it is a whole number of seconds, as
  it is for every \<open>int\<close> and for a \<open>float\<close> such as \<open>5.0\<close> or \<open>0.5\<close>.
\<close>

definition is_negative :: "pynum \<Rightarrow> bool" where
  "is_negative x =
     (case x of
        PInt i \<Rightarrow> i < 0
      | PFloat f \<Rightarrow>
          (case f of FVal a \<Rightarrow> a < 0 | FInf \<Rightarrow> False | FNegInf \<Rightarrow> True | FNaN \<Rightarrow> False))"



text \<open>
  The date-only shape of an all-day event: the field \<open>k\<close> of the raw event is missing or
  holds no \<open>dateTime\<close>.
\<close>

definition lacks_dateTime :: "pydict \<Rightarrow> string \<Rightarrow> bool" where
  "lacks_dateTime d k = (lookup_path (VDict d) [k, ''dateTime''] = None)"

text \<open>
  Sample values: the day of the repository's tests at a given time of day, the event of
  \<open>test_is_within_next_event\<close>, and the event of \<open>test_clean_events\<close> turned into an
  all-day event.
\<close>

definition sample_dt :: "nat \<Rightarrow> nat \<Rightarrow> nat \<Rightarrow> datetime" where
  "sample_dt h mi s =
     \<lparr>year = 2001, month = 2, day = 3, hour = h, minute = mi, second = s,
      microsecond = 0, tzinfo = None\<rparr>"

definition sample_next_event :: pyval where
  "sample_next_event =
     VDict [(''start'', VStr ''2001-02-03T12:00:00-02:00''),
            (''end'', VStr ''2001-02-03T12:30:00-02:00''),
            (''foo'', VStr ''bar'')]"

definition all_day_event :: pydict where
  "all_day_event = AList.update ''start'' (VDict [(''date'', VStr ''2001-02-03'')]) sample_event"



lemma inner_dicts_Cons:
  "inner_dicts (VDict d) (k # k' # ks) \<Longrightarrow> map_of d k = Some w \<Longrightarrow> inner_dicts w (k' # ks)"
  unfolding inner_dicts_def
proof (intro ballI impI)
  fix p assume a: "\<forall>p\<in>set (prefixes (k # k' # ks)). p \<noteq> k # k' # ks \<longrightarrow>
           (case lookup_path (VDict d) p of None \<Rightarrow> True | Some w \<Rightarrow> is_dict w)"
    and m: "map_of d k = Some w" and p: "p \<in> set (prefixes (k' # ks))" and ne: "p \<noteq> k' # ks"
  from p have "prefix p (k' # ks)" by (simp only: in_set_prefixes)
  then have "prefix (k # p) (k # k' # ks)" by simp
  then have "k # p \<in> set (prefixes (k # k' # ks))" by (simp only: in_set_prefixes)
  with a ne have "case lookup_path (VDict d) (k # p) of None \<Rightarrow> True | Some w \<Rightarrow> is_dict w"
    by blast
  with m show "case lookup_path w p of None \<Rightarrow> True | Some w \<Rightarrow> is_dict w" by simp
qed

lemma read_value_tuple_empty:
  "ks \<noteq> [] \<Longrightarrow> read_value_tuple (VDict []) ks = Inr (VStr [])"
  by (induction ks rule: induct_list012) (simp_all add: py_get_def dict_get_def)

lemma read_value_tuple_lookup:
  "ks \<noteq> [] \<Longrightarrow> is_dict v \<Longrightarrow> inner_dicts v ks \<Longrightarrow>
   read_value_tuple v ks = Inr (case lookup_path v ks of None \<Rightarrow> VStr [] | Some w \<Rightarrow> w)"
proof (induction v ks rule: read_value_tuple.induct)
  case (1 d)
  then show ?case by simp
next
  case (2 d k)
  then show ?case
    by (auto simp: is_dict_def py_get_def dict_get_def split: pyval.splits option.splits)
next
  case (3 v k k' ks)
  from 3(3) obtain d where v: "v = VDict d" by (auto simp: is_dict_def split: pyval.splits)
  show ?case
  proof (cases "map_of d k")
    case None
    then show ?thesis using v
      by (simp add: py_get_def dict_get_def read_value_tuple_empty)
  next
    case (Some w)
    have "prefix [k] (k # k' # ks)" by simp
    then have "[k] \<in> set (prefixes (k # k' # ks))" by (simp only: in_set_prefixes)
    with 3(4) have "case lookup_path v [k] of None \<Rightarrow> True | Some w \<Rightarrow> is_dict w"
      unfolding inner_dicts_def by blast 
    with Some v have dw: "is_dict w" by simp
    have iw: "inner_dicts w (k' # ks)" using inner_dicts_Cons 3(4) Some v by blast
    have g: "py_get v k (VDict []) = Inr w" using v Some by (simp add: py_get_def dict_get_def)
    have "read_value_tuple w (k' # ks) = Inr (case lookup_path w (k' # ks) of None \<Rightarrow> VStr [] | Some w \<Rightarrow> w)"
      using 3(1)[OF g _ dw iw] by simp
    then show ?thesis using g v Some by simp
  qed
qed

lemma inner_dicts_step:
  "inner_dicts (VDict d) (k # k' # ks) =
     (case map_of d k of None \<Rightarrow> True | Some w \<Rightarrow> inner_dicts w (k' # ks))"
  by (auto simp: inner_dicts_def is_dict_def split: option.splits)

lemma inner_dicts_single: "inner_dicts v [k] = is_dict v"
  by (auto simp: inner_dicts_def)

lemma inner_dicts_is_dict: "ks \<noteq> [] \<Longrightarrow> inner_dicts v ks \<Longrightarrow> is_dict v"
  by (cases ks) (auto simp: inner_dicts_def)

lemma read_value_tuple_not_dict:
  "ks \<noteq> [] \<Longrightarrow> \<not> is_dict v \<Longrightarrow> read_value_tuple v ks = Inl AttributeError"
  by (induction v ks rule: read_value_tuple.induct)
     (auto simp: is_dict_def py_get_def split: pyval.splits)

lemma read_value_tuple_blocked:
  "ks \<noteq> [] \<Longrightarrow> \<not> inner_dicts v ks \<Longrightarrow> read_value_tuple v ks = Inl AttributeError"
proof (induction v ks rule: read_value_tuple.induct)
  case (1 d)
  then show ?case by simp
next
  case (2 d k)
  then show ?case
    by (auto simp: inner_dicts_single is_dict_def py_get_def split: pyval.splits)
next
  case (3 v k k' ks)
  show ?case
  proof (cases "is_dict v")
    case False
    then show ?thesis by (rule read_value_tuple_not_dict[rotated]) simp
  next
    case True
    then obtain d where v: "v = VDict d" by (auto simp: is_dict_def split: pyval.splits)
    from 3(3) v obtain w where w: "map_of d k = Some w" and nw: "\<not> inner_dicts w (k' # ks)"
      by (auto simp: inner_dicts_step split: option.splits)
    have g: "py_get v k (VDict []) = Inr w" using v w by (simp add: py_get_def dict_get_def)
    from 3(1)[OF g _ nw] g show ?thesis by simp
  qed
qed

lemma read_value_str: "read_value (VDict d) (KStr k) = Inr (dict_get d k (VStr []))"
  by (simp add: read_value_def py_get_def)

lemma read_value_nested:
  "nested_ok d k \<Longrightarrow> read_value (VDict d) (KTuple [k, k']) = Inr (nested_field d k k')"
  by (auto simp: read_value_def py_get_def dict_get_def nested_ok_def is_dict_def nested_field_def
      split: option.splits pyval.splits)

lemma build_clean_default:
  "nested_ok d ''start'' \<Longrightarrow> nested_ok d ''end'' \<Longrightarrow>
   build_clean default_keys (VDict d) [] =
     Inr [(''summary'', dict_get d ''summary'' (VStr [])),
          (''start'', nested_field d ''start'' ''dateTime''),
          (''end'', nested_field d ''end'' ''dateTime''),
          (''status'', dict_get d ''status'' (VStr [])),
          (''transparency'', dict_get d ''transparency'' (VStr [])),
          (''visibility'', dict_get d ''visibility'' (VStr [])),
          (''attendees'', dict_get d ''attendees'' (VStr []))]"
  by (simp add: default_keys_def get_key_def read_value_str read_value_nested)

lemma self_responses_wf:
  "list_all wf_attendee xs \<Longrightarrow>
   self_responses xs ''responseStatus'' = Inr (map response_of (filter is_self xs))"
proof (induction xs)
  case Nil
  then show ?case by simp
next
  case (Cons aa xs)
  then show ?case
    by (auto simp: wf_attendee_def is_self_def response_of_def py_get_def dict_get_def
        split: pyval.splits option.splits)
qed

lemma find_filter_hd:
  "find P xs = (case filter P xs of [] \<Rightarrow> None | x # _ \<Rightarrow> Some x)"
  by (induction xs) auto

lemma get_my_response_status_wf:
  assumes "wf_raw_event (VDict d)"
    and "c = [(''summary'', s), (''start'', a), (''end'', b), (''status'', st),
              (''transparency'', t), (''visibility'', v),
              (''attendees'', dict_get d ''attendees'' (VStr []))]"
  shows "get_my_response_status c attendees_key response_key =
     (case self_response d of None \<Rightarrow> Inl IndexError | Some r \<Rightarrow> Inr r)"
proof -
  have item: "dict_item c attendees_key = Inr (dict_get d ''attendees'' (VStr []))"
    using assms(2) by (simp add: dict_item_def attendees_key_def)
  show ?thesis
  proof (cases "map_of d ''attendees''")
    case None
    then have "dict_get d ''attendees'' (VStr []) = VStr []" "raw_attendees d = []"
      by (simp_all add: dict_get_def raw_attendees_def)
    then show ?thesis using item
      by (simp add: get_my_response_status_def py_iter_def self_response_def)
  next
    case (Some v)
    with assms(1) obtain xs where v: "v = VList xs" and wf: "list_all wf_attendee xs"
      by (auto simp: wf_raw_event_def split: pyval.splits)
    have "dict_get d ''attendees'' (VStr []) = VList xs" "raw_attendees d = xs"
      using Some v by (simp_all add: dict_get_def raw_attendees_def)
    then show ?thesis using item self_responses_wf[OF wf]
      by (simp add: get_my_response_status_def py_iter_def self_response_def response_key_def
          find_filter_hd split: list.splits)
  qed
qed

lemma build_clean_shape:
  assumes "build_clean default_keys (VDict d) [] = Inr c"
  shows "\<exists>a b. c = comprehension d a b \<and>
           read_value (VDict d) (KTuple [''start'', ''dateTime'']) = Inr a \<and>
           read_value (VDict d) (KTuple [''end'', ''dateTime'']) = Inr b"
proof -
  obtain a where a: "read_value (VDict d) (KTuple [''start'', ''dateTime'']) = Inr a"
    using assms by (auto simp: default_keys_def get_key_def read_value_str split: sum.splits)
  obtain b where b: "read_value (VDict d) (KTuple [''end'', ''dateTime'']) = Inr b"
    using assms a by (auto simp: default_keys_def get_key_def read_value_str split: sum.splits)
  have "c = comprehension d a b"
    using assms a b by (simp add: default_keys_def get_key_def read_value_str comprehension_def)
  with a b show ?thesis by blast
qed

lemma finish_record:
  "dict_del (AList.update response_key r (comprehension d a b)) attendees_key = Inr c' \<Longrightarrow>
   (if dict_get c' ''visibility'' (VStr []) = VStr ''private''
    then AList.update ''summary'' (VStr DEFAULT_STATUS) c' else c') = clean_record d a b r"
  by (auto simp: comprehension_def clean_record_def response_key_def attendees_key_def
      dict_del_def dict_get_def split: option.splits)

lemma dict_del_comprehension:
  "\<exists>c'. dict_del (AList.update response_key r (comprehension d a b)) attendees_key = Inr c'"
  by (simp add: comprehension_def response_key_def attendees_key_def dict_del_def)

lemma clean_event_steps:
  assumes "build_clean default_keys (VDict d) [] = Inr (comprehension d a b)"
  shows "clean_event default_keys (VDict d) =
     (if \<not> is_busy d then Inr None
      else case map_of d ''status'' of
             None \<Rightarrow> Inl KeyError
           | Some st \<Rightarrow>
               if st \<noteq> VStr ''confirmed'' then Inr None
               else (case get_my_response_status (comprehension d a b) attendees_key response_key of
                       Inl e \<Rightarrow> Inl e
                     | Inr r \<Rightarrow>
                         if r \<noteq> VStr ''accepted'' then Inr None
                         else Inr (Some (VDict (clean_record d a b r)))))"
proof -
  have fin: "\<And>r. (case dict_del (AList.update response_key r (comprehension d a b)) attendees_key of
            Inl e \<Rightarrow> Inl e
          | Inr c' \<Rightarrow>
              if dict_get c' ''visibility'' (VStr []) = VStr ''private''
              then Inr (Some (VDict (AList.update ''summary'' (VStr DEFAULT_STATUS) c')))
              else Inr (Some (VDict c'))) = Inr (Some (VDict (clean_record d a b r)))"
  proof -
    fix r
    obtain c' where c': "dict_del (AList.update response_key r (comprehension d a b)) attendees_key = Inr c'"
      using dict_del_comprehension by blast
    show "?thesis r" using c' finish_record[OF c'] by (simp split: if_splits)
  qed
  show ?thesis
    unfolding clean_event_def
    by (simp add: assms fin py_get_def py_item_def dict_item_def dict_get_def is_busy_def
        split: option.splits sum.splits)
qed

lemma canonical_event_eq:
  "canonical_event (VDict d) =
     VDict (clean_record d (nested_field d ''start'' ''dateTime'') (nested_field d ''end'' ''dateTime'')
       (case self_response d of None \<Rightarrow> VStr [] | Some r \<Rightarrow> r))"
  by (simp add: canonical_event_def clean_record_def)

lemma clean_event_wf:
  assumes wf: "wf_raw_event (VDict d)"
  shows "clean_event default_keys (VDict d) =
     (if \<not> is_busy d then Inr None
      else case map_of d ''status'' of
             None \<Rightarrow> Inl KeyError
           | Some st \<Rightarrow>
               if st \<noteq> VStr ''confirmed'' then Inr None
               else (case self_response d of
                       None \<Rightarrow> Inl IndexError
                     | Some r \<Rightarrow>
                         if r \<noteq> VStr ''accepted'' then Inr None
                         else Inr (Some (canonical_event (VDict d)))))"
proof -
  from wf have ok: "nested_ok d ''start''" "nested_ok d ''end''"
    by (simp_all add: wf_raw_event_def)
  let ?a = "nested_field d ''start'' ''dateTime''" and ?b = "nested_field d ''end'' ''dateTime''"
  have bc: "build_clean default_keys (VDict d) [] = Inr (comprehension d ?a ?b)"
    using build_clean_default[OF ok] by (simp add: comprehension_def)
  have g: "get_my_response_status (comprehension d ?a ?b) attendees_key response_key =
     (case self_response d of None \<Rightarrow> Inl IndexError | Some r \<Rightarrow> Inr r)"
    by (rule get_my_response_status_wf[OF wf]) (simp add: comprehension_def)
  show ?thesis
    unfolding clean_event_steps[OF bc] g canonical_event_eq
    by (simp split: option.splits)
qed

lemma clean_event_Some:
  assumes "clean_event default_keys ee = Inr (Some r)"
  shows "\<exists>d a b. ee = VDict d \<and> r = VDict (clean_record d a b (VStr ''accepted'')) \<and>
           read_value (VDict d) (KTuple [''start'', ''dateTime'']) = Inr a \<and>
           read_value (VDict d) (KTuple [''end'', ''dateTime'']) = Inr b"
proof -
  obtain d where ee: "ee = VDict d"
    using assms by (cases ee) (simp_all add: clean_event_def py_get_def)
  obtain c where c: "build_clean default_keys (VDict d) [] = Inr c"
    using assms unfolding ee clean_event_def
    by (auto split: sum.splits if_splits)
  then obtain a b where "c = comprehension d a b"
    and ab: "read_value (VDict d) (KTuple [''start'', ''dateTime'']) = Inr a"
      "read_value (VDict d) (KTuple [''end'', ''dateTime'']) = Inr b"
    using build_clean_shape by blast
  with c have bc: "build_clean default_keys (VDict d) [] = Inr (comprehension d a b)" by simp
  have "r = VDict (clean_record d a b (VStr ''accepted''))"
    using assms unfolding ee clean_event_steps[OF bc]
    by (auto split: if_splits option.splits sum.splits)
  with ee ab show ?thesis by blast
qed

lemma loop_acc:
  "clean_events_loop keys evs acc =
     (case clean_events_loop keys evs [] of Inl e \<Rightarrow> Inl e | Inr out \<Rightarrow> Inr (acc @ out))"
proof (induction evs arbitrary: acc)
  case Nil
  then show ?case by simp
next
  case (Cons ee evs)
  show ?case
  proof (cases "clean_event keys ee")
    case (Inl e)
    then show ?thesis by simp
  next
    case (Inr x)
    show ?thesis
    proof (cases x)
      case None
      with Inr show ?thesis using Cons.IH[of acc] by simp
    next
      case (Some r)
      with Inr show ?thesis using Cons.IH[of "acc @ [r]"] Cons.IH[of "[r]"]
        by (simp split: sum.splits)
    qed
  qed
qed

lemma loop_Cons:
  "clean_events_loop keys (ee # evs) [] =
     (case clean_event keys ee of
        Inl e \<Rightarrow> Inl e
      | Inr x \<Rightarrow>
          (case clean_events_loop keys evs [] of
             Inl e \<Rightarrow> Inl e
           | Inr out \<Rightarrow> Inr ((case x of None \<Rightarrow> [] | Some r \<Rightarrow> [r]) @ out)))"
  using loop_acc[of keys evs "[r]" for r]
  by (simp split: sum.splits option.splits)

lemma loop_append:
  "clean_events_loop keys (xs @ ys) [] =
     (case clean_events_loop keys xs [] of
        Inl e \<Rightarrow> Inl e
      | Inr out \<Rightarrow>
          (case clean_events_loop keys ys [] of Inl e \<Rightarrow> Inl e | Inr out' \<Rightarrow> Inr (out @ out')))"
proof (induction xs)
  case Nil
  then show ?case by (simp split: sum.splits)
next
  case (Cons x xs)
  show ?case unfolding append_Cons loop_Cons Cons.IH
    by (simp split: sum.splits option.splits)
qed

lemma loop_result:
  "clean_events_loop keys evs [] = Inr out \<Longrightarrow>
   list_all2 (\<lambda>ee r. clean_event keys ee = Inr (Some r))
     (filter (\<lambda>ee. clean_event keys ee \<noteq> Inr None) evs) out"
proof (induction evs arbitrary: out)
  case Nil
  then show ?case by simp
next
  case (Cons ee evs)
  from Cons.prems show ?case unfolding loop_Cons
    by (auto split: sum.splits option.splits dest: Cons.IH)
qed

lemma loop_no_error:
  "clean_events_loop keys evs [] = Inr out \<Longrightarrow> ee \<in> set evs \<Longrightarrow>
   \<exists>x. clean_event keys ee = Inr x"
proof (induction evs arbitrary: out)
  case Nil
  then show ?case by simp
next
  case (Cons e evs)
  from Cons.prems show ?case unfolding loop_Cons
    by (auto split: sum.splits option.splits dest: Cons.IH)
qed

section \<open>Parsing what was printed\<close>

lemma digit_val_digit_char:
  assumes "n < 10"
  shows "digit_val (digit_char n) = Some n"
proof -
  from assms have "n \<in> {0, 1, 2, 3, 4, 5, 6, 7, 8, 9}" by (simp; arith)
  then show ?thesis by (auto simp: digit_val_def digit_char_def)
qed

lemma two_digits_pad2:
  "n < 100 \<Longrightarrow> two_digits P (pad2 n @ r) = (if P (n div 10) (n mod 10) then Some (n, r) else None)"
  by (simp add: two_digits_def pad2_def digit_val_digit_char)

lemma re_Y_pad4: "y < 10000 \<Longrightarrow> re_Y (pad4 y @ r) = Some (y, r)"
  by (simp add: re_Y_def pad4_def two_digits_pad2)

lemma re_m_pad2:
  assumes "1 \<le> m" "m \<le> 12"
  shows "re_m (pad2 m @ r) = Some (m, r)"
proof -
  have "(m div 10 = 1 \<and> m mod 10 \<le> 2) \<or> (m div 10 = 0 \<and> 1 \<le> m mod 10)"
    using assms by presburger
  moreover have "m < 100" using assms by simp
  ultimately show ?thesis
    by (auto simp: re_m_def re_alt_def two_digits_pad2)
qed

lemma re_d_pad2:
  assumes "1 \<le> d" "d \<le> 31"
  shows "re_d (pad2 d @ r) = Some (d, r)"
proof -
  have "(d div 10 = 3 \<and> d mod 10 \<le> 1) \<or> (1 \<le> d div 10 \<and> d div 10 \<le> 2) \<or>
        (d div 10 = 0 \<and> 1 \<le> d mod 10)"
    using assms by presburger
  moreover have "d < 100" using assms by simp
  ultimately show ?thesis
    by (auto simp: re_d_def re_alt_def two_digits_pad2)
qed

lemma re_H_pad2:
  assumes "h \<le> 23"
  shows "re_H (pad2 h @ r) = Some (h, r)"
proof -
  have "(h div 10 = 2 \<and> h mod 10 \<le> 3) \<or> h div 10 \<le> 1"
    using assms by presburger
  moreover have "h < 100" using assms by simp
  ultimately show ?thesis
    by (auto simp: re_H_def re_alt_def two_digits_pad2)
qed

lemma re_M_pad2:
  assumes "m \<le> 59"
  shows "re_M (pad2 m @ r) = Some (m, r)"
proof -
  have "m div 10 \<le> 5" using assms by presburger
  moreover have "m < 100" using assms by simp
  ultimately show ?thesis
    by (auto simp: re_M_def re_alt_def two_digits_pad2)
qed

lemma re_S_pad2:
  assumes "s \<le> 59"
  shows "re_S (pad2 s @ r) = Some (s, r)"
proof -
  have "s div 10 \<le> 5" using assms by presburger
  moreover have "s < 100" using assms by simp
  ultimately show ?thesis
    by (auto simp: re_S_def re_alt_def two_digits_pad2)
qed

lemma lit_Cons: "lit c (c # r) = Some r"
  by (simp add: lit_def)

lemma parse_date_iso:
  assumes "y < 10000" "1 \<le> m" "m \<le> 12" "1 \<le> d" "d \<le> 31"
  shows "parse_date (pad4 y @ CHR ''-'' # pad2 m @ CHR ''-'' # pad2 d @ CHR ''T'' # r) =
           Some (\<lparr>year = y, month = m, day = d, hour = 0, minute = 0, second = 0,
                  microsecond = 0, tzinfo = None\<rparr>, r)"
  using assms
  by (simp add: parse_date_def re_Y_pad4 re_m_pad2 re_d_pad2 lit_Cons lit_ci_def)

lemma parse_time_iso:
  assumes "h \<le> 23" "mi \<le> 59" "s \<le> 59"
  shows "parse_time dt (pad2 h @ CHR '':'' # pad2 mi @ CHR '':'' # pad2 s @ r) =
           Some (dt\<lparr>hour := h, minute := mi, second := s\<rparr>, r)"
  using assms
  by (simp add: parse_time_def re_H_pad2 re_M_pad2 re_S_pad2 lit_Cons)

lemma digit_char_not:
  assumes "n < 10"
  shows "digit_char n \<noteq> CHR ''Z''" "digit_char n \<noteq> CHR ''.''" "digit_char n \<noteq> CHR '':''"
    "digit_char n \<noteq> CHR ''+''" "digit_char n \<noteq> CHR ''-''"
proof -
  have "digit_val c = None \<Longrightarrow> digit_char n \<noteq> c" for c
    using digit_val_digit_char[OF assms] by auto
  then show "digit_char n \<noteq> CHR ''Z''" "digit_char n \<noteq> CHR ''.''" "digit_char n \<noteq> CHR '':''"
    "digit_char n \<noteq> CHR ''+''" "digit_char n \<noteq> CHR ''-''"
    by (simp_all add: digit_val_def)
qed

lemma is_digit_digit_char: "n < 10 \<Longrightarrow> is_digit (digit_char n)"
  by (simp add: is_digit_def digit_val_digit_char)

lemma take_digits_pad2:
  "n < 100 \<Longrightarrow> take_digits (Suc (Suc k)) (pad2 n @ r) =
     (case take_digits k r of (ds, r') \<Rightarrow> (n div 10 # n mod 10 # ds, r'))"
  by (simp add: pad2_def digit_val_digit_char split: prod.splits)

lemma re_z_pad:
  assumes "hh < 100" "mm \<le> 59"
  shows "re_z ((if neg then CHR ''-'' else CHR ''+'') # pad2 hh @ pad2 mm @ r) =
           Some ((if neg then - 1 else 1) * int (hh * 3600 + mm * 60), r)"
proof -
  have "mm div 10 \<le> 5" "mm < 100" using assms by simp_all
  then show ?thesis using assms
    by (simp add: re_z_def two_digits_pad2)
qed

lemma length_pads: "length (pad2 n) = 2" "length (pad4 n) = 4" "length (pad6 n) = 6"
  by (simp_all add: pad2_def pad4_def pad6_def)

lemma length_iso_seconds: "length (iso_seconds dt) = 19"
  by (simp add: iso_seconds_def length_pads)

lemma length_iso_offset: "length (iso_offset neg hh mm) = 6"
  by (simp add: iso_offset_def length_pads)

lemma last6_append: "length suf = 6 \<Longrightarrow> last6 (pre @ suf) = suf"
  by (simp add: last6_def)

lemma but_last6_append: "length suf = 6 \<Longrightarrow> but_last6 (pre @ suf) = pre"
  by (simp add: but_last6_def)

lemma six_digits_value:
  fixes us :: nat
  shows "us mod 100 + (100 * (us div 100 mod 100) + 10000 * (us div 10000)) = us"
proof -
  have m: "us mod (100 * 100) = 100 * (us div 100 mod 100) + us mod 100"
    by (rule mod_mult2_eq)
  have "10000 * (us div 10000) + us mod 10000 = us" by simp
  with m show ?thesis by simp
qed

lemma take_digits_six:
  assumes "us < 1000000"
  shows "take_digits (Suc (Suc (Suc (Suc (Suc (Suc 0)))))) (pad6 us @ r) =
    ([us div 10000 div 10, us div 10000 mod 10, us div 100 mod 100 div 10,
      us div 100 mod 100 mod 10, us mod 100 div 10, us mod 100 mod 10], r)"
proof -
  have b: "us div 10000 < 100" "us div 100 mod 100 < 100" "us mod 100 < 100"
    using assms by simp_all
  show ?thesis unfolding pad6_def append_assoc
    by (simp add: take_digits_pad2 b)
qed

lemma re_f_pad6:
  assumes "us < 1000000"
  shows "re_f (pad6 us @ r) = Some (us, r)"
proof -
  have six: "(6::nat) = Suc (Suc (Suc (Suc (Suc (Suc 0)))))" by simp
  have "take_digits 6 (pad6 us @ r) =
    ([us div 10000 div 10, us div 10000 mod 10, us div 100 mod 100 div 10,
      us div 100 mod 100 mod 10, us mod 100 div 10, us mod 100 mod 10], r)"
    using take_digits_six[OF assms] by (simp only: six)
  then show ?thesis
    by (simp add: re_f_def six_digits_value)
qed

lemma days_in_month_le:
  assumes "m \<le> 12"
  shows "days_in_month y m \<le> 31"
proof -
  from assms have "m \<in> {0, 1, 2, 3, 4, 5, 6, 7, 8, 9, 10, 11, 12}" by (simp; arith)
  then have "[0, 31, 28, 31, 30, 31, 30, 31, 31, 30, 31, 30, 31] ! m \<le> (31::nat)" by auto
  then show ?thesis by (simp add: days_in_month_def)
qed

lemma parse_all_iso:
  assumes "valid_datetime dt"
  shows "parse_all (iso_seconds dt @ r) has_fraction sfx =
           parse_fraction has_fraction (dt\<lparr>microsecond := 0, tzinfo := None\<rparr>) r \<bind>
             (\<lambda>(d, s). parse_suffix sfx d s)"
proof -
  from assms have f: "year dt < 10000" "1 \<le> month dt" "month dt \<le> 12" "1 \<le> day dt"
    "day dt \<le> days_in_month (year dt) (month dt)"
    "hour dt \<le> 23" "minute dt \<le> 59" "second dt \<le> 59"
    by (simp_all add: valid_datetime_def)
  from f(5) days_in_month_le[OF f(3)] have d: "day dt \<le> 31" by (rule order_trans)
  have rec: "\<lparr>year = year dt, month = month dt, day = day dt, hour = hour dt,
      minute = minute dt, second = second dt, microsecond = 0, tzinfo = None\<rparr> =
      dt\<lparr>microsecond := 0, tzinfo := None\<rparr>"
    by (cases dt) simp
  show ?thesis
    unfolding parse_all_def iso_seconds_def
    by (simp add: parse_date_iso[OF f(1) f(2) f(3) f(4) d] parse_time_iso[OF f(6) f(7) f(8)] rec)
qed

lemma datetime_strptime_iso:
  assumes "valid_datetime dt"
  shows "datetime_strptime (iso_seconds dt @ r) has_fraction sfx =
    (case parse_fraction has_fraction (dt\<lparr>microsecond := 0, tzinfo := None\<rparr>) r \<bind>
            (\<lambda>(d, s). parse_suffix sfx d s) of
       None \<Rightarrow> Inl ValueError
     | Some (d, rest) \<Rightarrow> if rest = [] \<and> valid_datetime d then Inr d else Inl ValueError)"
  by (simp add: datetime_strptime_def parse_all_iso[OF assms])

lemma frac_flag:
  "(20 \<le> length (iso_seconds dt @ tail) \<and> (iso_seconds dt @ tail) ! 19 = CHR ''.'') =
     (case tail of [] \<Rightarrow> False | c # _ \<Rightarrow> c = CHR ''.'')"
  by (cases tail) (simp_all add: nth_append length_iso_seconds)

lemma iso_seconds_not_Nil: "iso_seconds dt \<noteq> []"
  by (simp add: iso_seconds_def pad4_def pad2_def)

lemma last_iso_seconds: "last (iso_seconds dt) = digit_char (second dt mod 10)"
  by (simp add: iso_seconds_def pad2_def)

lemma last6_iso_seconds:
  "last6 (iso_seconds dt) = CHR '':'' # pad2 (minute dt) @ CHR '':'' # pad2 (second dt)"
  by (simp add: last6_def iso_seconds_def pad4_def pad2_def)

lemma valid_clear:
  "valid_datetime dt \<Longrightarrow> valid_datetime (dt\<lparr>microsecond := 0, tzinfo := None\<rparr>)"
  by (simp add: valid_datetime_def)

lemma strptime_naive:
  assumes "valid_datetime dt"
  shows "strptime (iso_seconds dt) = Inr (dt\<lparr>microsecond := 0, tzinfo := None\<rparr>)"
proof -
  have ff: "\<not> (20 \<le> length (iso_seconds dt) \<and> iso_seconds dt ! 19 = CHR ''.'')"
    by (simp add: length_iso_seconds)
  have nz: "last (iso_seconds dt) \<noteq> CHR ''Z''"
    by (simp add: last_iso_seconds digit_char_not)
  have no: "\<not> offset_suffix (last6 (iso_seconds dt))"
    by (simp add: last6_iso_seconds pad2_def)
  have p: "datetime_strptime (iso_seconds dt) False NoSuffix = Inr (dt\<lparr>microsecond := 0, tzinfo := None\<rparr>)"
    using datetime_strptime_iso[OF assms, of "[]" False NoSuffix] valid_clear[OF assms]
    by (simp add: parse_fraction_def parse_suffix_def)
  show ?thesis
    by (simp add: strptime_def ff nz no p iso_seconds_not_Nil)
qed

lemma valid_offset:
  assumes "valid_datetime dt" "hh \<le> 23" "mm \<le> 59"
  shows "valid_datetime (dt\<lparr>tzinfo := Some (offset_us neg hh mm)\<rparr>)"
proof -
  have "hh * 3600 + mm * 60 < 86400" using assms(2,3) by simp
  then have "\<bar>offset_us neg hh mm\<bar> < 86400 * 1000000"
    by (simp add: offset_us_def abs_mult)
  then show ?thesis using assms(1) by (simp add: valid_datetime_def)
qed

lemma valid_utc: "valid_datetime dt \<Longrightarrow> valid_datetime (dt\<lparr>tzinfo := Some 0\<rparr>)"
  by (simp add: valid_datetime_def)

lemma strptime_Z:
  assumes "valid_datetime dt"
  shows "strptime (iso_seconds dt @ ''Z'') = Inr (dt\<lparr>microsecond := 0, tzinfo := Some 0\<rparr>)"
proof -
  let ?s = "iso_seconds dt @ ''Z''"
  have ff: "\<not> (20 \<le> length ?s \<and> ?s ! 19 = CHR ''.'')"
    unfolding frac_flag by simp
  have ne: "?s \<noteq> []" by simp
  have lz: "last ?s = CHR ''Z''" by simp
  have p: "datetime_strptime ?s False LitZ = Inr (dt\<lparr>microsecond := 0, tzinfo := None\<rparr>)"
    using datetime_strptime_iso[OF assms, of "''Z''" False LitZ] valid_clear[OF assms]
    by (simp add: parse_fraction_def parse_suffix_def lit_ci_def)
  show ?thesis
    unfolding strptime_def Let_def
    by (simp only: ff ne lz p if_True if_False sum.case) simp
qed

lemma offset_tail:
  assumes "hh \<le> 23" "mm \<le> 59"
  shows "last (iso_offset neg hh mm) \<noteq> CHR ''Z''"
    and "offset_suffix (iso_offset neg hh mm)"
    and "filter (\<lambda>c. c \<noteq> CHR '':'') (iso_offset neg hh mm) =
           (if neg then CHR ''-'' else CHR ''+'') # pad2 hh @ pad2 mm"
    and "iso_offset neg hh mm \<noteq> []"
    and "hd (iso_offset neg hh mm) \<noteq> CHR ''.''"
proof -
  have b: "hh div 10 < 10" "hh mod 10 < 10" "mm div 10 < 10" "mm mod 10 < 10"
    using assms by simp_all
  show "last (iso_offset neg hh mm) \<noteq> CHR ''Z''"
    by (simp add: iso_offset_def pad2_def digit_char_not b)
  show "offset_suffix (iso_offset neg hh mm)"
    by (simp add: iso_offset_def pad2_def is_digit_digit_char b)
  show "filter (\<lambda>c. c \<noteq> CHR '':'') (iso_offset neg hh mm) =
           (if neg then CHR ''-'' else CHR ''+'') # pad2 hh @ pad2 mm"
    by (simp add: iso_offset_def pad2_def digit_char_not b)
  show "iso_offset neg hh mm \<noteq> []" by (simp add: iso_offset_def)
  show "hd (iso_offset neg hh mm) \<noteq> CHR ''.''" by (simp add: iso_offset_def)
qed

lemma strptime_offset:
  assumes "valid_datetime dt" "hh \<le> 23" "mm \<le> 59"
  shows "strptime (iso_seconds dt @ iso_offset neg hh mm) =
           Inr (dt\<lparr>microsecond := 0, tzinfo := Some (offset_us neg hh mm)\<rparr>)"
proof -
  let ?s = "iso_seconds dt @ iso_offset neg hh mm"
  note t = offset_tail[OF assms(2,3), of neg]
  have ff: "\<not> (20 \<le> length ?s \<and> ?s ! 19 = CHR ''.'')"
    unfolding frac_flag using t(4,5) by (cases "iso_offset neg hh mm") simp_all
  have ne: "?s \<noteq> []" using t(4) by simp
  have nz: "last ?s \<noteq> CHR ''Z''" using t(1,4) by simp
  have l6: "last6 ?s = iso_offset neg hh mm" "but_last6 ?s = iso_seconds dt"
    by (simp_all add: last6_append but_last6_append length_iso_offset)
  have hh: "hh < 100" using assms(2) by simp
  have v: "valid_datetime (dt\<lparr>microsecond := 0, tzinfo := Some (offset_us neg hh mm)\<rparr>)"
    using valid_offset[OF valid_clear[OF assms(1)] assms(2,3), of neg] by simp
  have p: "datetime_strptime
             (iso_seconds dt @ (if neg then CHR ''-'' else CHR ''+'') # pad2 hh @ pad2 mm) False PctZ =
           Inr (dt\<lparr>microsecond := 0, tzinfo := Some (offset_us neg hh mm)\<rparr>)"
    unfolding datetime_strptime_iso[OF assms(1)]
    using re_z_pad[OF hh assms(3), of neg "[]"] v
    by (simp add: parse_fraction_def parse_suffix_def offset_us_def)
  show ?thesis
    unfolding strptime_def Let_def
    by (simp only: ff ne nz l6 t(2,3) p if_True if_False)
qed

lemma parse_fraction_iso:
  assumes "valid_datetime dt"
  shows "parse_fraction True d (iso_fraction dt @ r) = Some (d\<lparr>microsecond := microsecond dt\<rparr>, r)"
proof -
  from assms have "microsecond dt < 1000000" by (simp add: valid_datetime_def)
  then show ?thesis
    by (simp add: parse_fraction_def iso_fraction_def lit_Cons re_f_pad6)
qed

lemma fraction_tail:
  assumes "valid_datetime dt"
  shows "iso_fraction dt \<noteq> []"
    and "hd (iso_fraction dt) = CHR ''.''"
    and "last (iso_fraction dt) \<noteq> CHR ''Z''"
    and "\<not> offset_suffix (last6 (pre @ iso_fraction dt))"
proof -
  from assms have "microsecond dt < 1000000" by (simp add: valid_datetime_def)
  then have b: "microsecond dt div 10000 div 10 < 10" by simp
  show "iso_fraction dt \<noteq> []" "hd (iso_fraction dt) = CHR ''.''"
    by (simp_all add: iso_fraction_def)
  show "last (iso_fraction dt) \<noteq> CHR ''Z''"
    by (simp add: iso_fraction_def pad6_def pad2_def digit_char_not)
  have "pre @ iso_fraction dt = (pre @ ''.'') @ pad6 (microsecond dt)"
    by (simp add: iso_fraction_def)
  then have "last6 (pre @ iso_fraction dt) = pad6 (microsecond dt)"
    by (simp only: last6_append length_pads)
  then show "\<not> offset_suffix (last6 (pre @ iso_fraction dt))"
    using digit_char_not(4,5)[OF b] by (simp add: pad6_def pad2_def)
qed

lemma frac_flag_fraction:
  "(20 \<le> length (iso_seconds dt @ iso_fraction dt' @ tail) \<and>
    (iso_seconds dt @ iso_fraction dt' @ tail) ! 19 = CHR ''.'') = True"
  unfolding frac_flag by (simp add: iso_fraction_def)

lemma valid_micro:
  "valid_datetime dt \<Longrightarrow>
   valid_datetime (dt\<lparr>microsecond := 0, tzinfo := None\<rparr>\<lparr>microsecond := microsecond dt\<rparr>)"
  by (simp add: valid_datetime_def)

lemma strptime_frac_naive:
  assumes "valid_datetime dt"
  shows "strptime (iso_seconds dt @ iso_fraction dt) = Inr (dt\<lparr>tzinfo := None\<rparr>)"
proof -
  let ?s = "iso_seconds dt @ iso_fraction dt"
  note t = fraction_tail[OF assms]
  have ff: "(20 \<le> length ?s \<and> ?s ! 19 = CHR ''.'') = True"
    using frac_flag_fraction[of dt dt "[]"] by simp
  have ne: "?s \<noteq> []" using t(1) by simp
  have nz: "last ?s \<noteq> CHR ''Z''" using t(1,3) by simp
  have p: "datetime_strptime ?s True NoSuffix = Inr (dt\<lparr>tzinfo := None\<rparr>)"
    unfolding datetime_strptime_iso[OF assms]
    using parse_fraction_iso[OF assms, of _ "[]"] valid_micro[OF assms]
    by (simp add: parse_suffix_def)
  show ?thesis
    unfolding strptime_def Let_def
    by (simp only: ff ne nz t(4) p if_True if_False)
qed

lemma strptime_frac_Z:
  assumes "valid_datetime dt"
  shows "strptime (iso_seconds dt @ iso_fraction dt @ ''Z'') = Inr (dt\<lparr>tzinfo := Some 0\<rparr>)"
proof -
  let ?s = "iso_seconds dt @ iso_fraction dt @ ''Z''"
  have ff: "(20 \<le> length ?s \<and> ?s ! 19 = CHR ''.'') = True"
    by (rule frac_flag_fraction)
  have ne: "?s \<noteq> []" by simp
  have lz: "last ?s = CHR ''Z''" by simp
  have p: "datetime_strptime ?s True LitZ = Inr (dt\<lparr>tzinfo := None\<rparr>)"
    unfolding datetime_strptime_iso[OF assms]
    using parse_fraction_iso[OF assms, of _ "''Z''"] valid_micro[OF assms]
    by (simp add: parse_suffix_def lit_ci_def)
  show ?thesis
    unfolding strptime_def Let_def
    by (simp only: ff ne lz p if_True if_False sum.case) simp
qed

lemma strptime_frac_offset:
  assumes "valid_datetime dt" "hh \<le> 23" "mm \<le> 59"
  shows "strptime (iso_seconds dt @ iso_fraction dt @ iso_offset neg hh mm) =
           Inr (dt\<lparr>tzinfo := Some (offset_us neg hh mm)\<rparr>)"
proof -
  let ?s = "iso_seconds dt @ iso_fraction dt @ iso_offset neg hh mm"
  note t = offset_tail[OF assms(2,3), of neg]
  have ff: "(20 \<le> length ?s \<and> ?s ! 19 = CHR ''.'') = True"
    by (rule frac_flag_fraction)
  have ne: "?s \<noteq> []" using t(4) by simp
  have nz: "last ?s \<noteq> CHR ''Z''" using t(1,4) by simp
  have "?s = (iso_seconds dt @ iso_fraction dt) @ iso_offset neg hh mm" by simp
  then have l6: "last6 ?s = iso_offset neg hh mm"
    "but_last6 ?s = iso_seconds dt @ iso_fraction dt"
    by (simp_all only: last6_append but_last6_append length_iso_offset)
  have hh: "hh < 100" using assms(2) by simp
  have v: "valid_datetime (dt\<lparr>tzinfo := Some (offset_us neg hh mm)\<rparr>)"
    by (rule valid_offset[OF assms])
  have p: "datetime_strptime
             ((iso_seconds dt @ iso_fraction dt) @
                (if neg then CHR ''-'' else CHR ''+'') # pad2 hh @ pad2 mm) True PctZ =
           Inr (dt\<lparr>tzinfo := Some (offset_us neg hh mm)\<rparr>)"
    unfolding append_assoc datetime_strptime_iso[OF assms(1)]
    using parse_fraction_iso[OF assms(1)] re_z_pad[OF hh assms(3), of neg "[]"] v
    by (simp add: parse_suffix_def offset_us_def)
  show ?thesis
    unfolding strptime_def Let_def
    by (simp only: ff ne nz l6 t(2,3) p if_True if_False)
qed

subsection \<open>Rounding to a double\<close>























subsection \<open>The window evaluator\<close>



lemma negative_not_ge_zero: "is_negative mb \<Longrightarrow> \<not> ge_zero mb"
  by (auto simp: is_negative_def ge_zero_def split: pynum.splits pyfloat.splits)

lemma strptime_empty: "strptime [] = Inl IndexError"
  by (simp add: strptime_def)

lemma within_empty_start:
  "ge_zero mb \<Longrightarrow> map_of c ''start'' = Some (VStr []) \<Longrightarrow>
   is_within_next_event now (VDict c) mb = Inl IndexError"
  by (auto simp: is_within_next_event_def py_item_def dict_item_def strptime_val_def strptime_empty)

lemma within_empty_end:
  "map_of c ''start'' = Some a \<Longrightarrow> map_of c ''end'' = Some (VStr []) \<Longrightarrow>
   \<exists>e. is_within_next_event now (VDict c) mb = Inl e"
  by (auto simp: is_within_next_event_def py_item_def dict_item_def strptime_val_def strptime_empty
      split: sum.splits)

lemma nested_field_lacking:
  "lookup_path (VDict d) [k, k'] = None \<Longrightarrow> nested_field d k k' = VStr []"
  by (auto simp: nested_field_def dict_get_def split: option.splits pyval.splits)

lemma clean_events_single:
  "wf_raw_event (VDict d) \<Longrightarrow> kept (VDict d) \<Longrightarrow>
   clean_events [VDict d] = Inr [canonical_event (VDict d)]"
  by (simp add: clean_events_def clean_events_keys_def loop_Cons clean_event_wf kept_def
      is_confirmed_def)

subsection \<open>Sample values\<close>

lemma valid_sample_dt: "h \<le> 23 \<Longrightarrow> mi \<le> 59 \<Longrightarrow> s \<le> 59 \<Longrightarrow> valid_datetime (sample_dt h mi s)"
  by (simp add: valid_datetime_def sample_dt_def days_in_month_def is_leap_def)

lemma valid_sample_us:
  "h \<le> 23 \<Longrightarrow> mi \<le> 59 \<Longrightarrow> s \<le> 59 \<Longrightarrow> us \<le> 999999 \<Longrightarrow>
   valid_datetime (sample_dt h mi s\<lparr>microsecond := us\<rparr>)"
  by (simp add: valid_datetime_def sample_dt_def days_in_month_def is_leap_def)

lemma digit_chars:
  "digit_char 0 = CHR ''0''" "digit_char 1 = CHR ''1''" "digit_char (Suc 0) = CHR ''1''" "digit_char 2 = CHR ''2''"
  "digit_char 3 = CHR ''3''" "digit_char 4 = CHR ''4''" "digit_char 5 = CHR ''5''"
  "digit_char 6 = CHR ''6''" "digit_char 7 = CHR ''7''" "digit_char 8 = CHR ''8''"
  "digit_char 9 = CHR ''9''"
  by (simp_all add: digit_char_def)

lemma wall_sample: "wall_us (sample_dt h mi s) = ((17532456 + int h) * 60 + int mi) * 60000000 + int s * 1000000"
  by (simp add: wall_us_def toordinal_def sample_dt_def days_before_year_def days_before_month_def is_leap_def)

lemma wall_us_tzinfo: "wall_us (dt\<lparr>tzinfo := tz\<rparr>) = wall_us dt"
  by (simp add: wall_us_def toordinal_def)

lemma instant_sample:
  "instant (sample_dt h mi s\<lparr>tzinfo := Some off\<rparr>) =
     ((17532456 + int h) * 60 + int mi) * 60000000 + int s * 1000000 - off"
  by (simp only: instant_def wall_us_tzinfo wall_sample) simp

lemma sample_dt_clear:
  "sample_dt h mi s\<lparr>microsecond := 0, tzinfo := tz\<rparr> = sample_dt h mi s\<lparr>tzinfo := tz\<rparr>"
  "sample_dt h mi s\<lparr>microsecond := us\<rparr>\<lparr>microsecond := 0, tzinfo := tz\<rparr> = sample_dt h mi s\<lparr>tzinfo := tz\<rparr>"
  "sample_dt h mi s\<lparr>tzinfo := None\<rparr> = sample_dt h mi s"
  by (simp_all add: sample_dt_def)

lemma sample_strings:
  "''2001-02-03T12:00:00-02:00'' = iso_seconds (sample_dt 12 0 0) @ iso_offset True 2 0"
  "''2001-02-03T12:30:00-02:00'' = iso_seconds (sample_dt 12 30 0) @ iso_offset True 2 0"
  "''2001-02-03T04:05:06-03:00'' = iso_seconds (sample_dt 4 5 6) @ iso_offset True 3 0"
  "''2001-02-03T04:05:06+10:00'' = iso_seconds (sample_dt 4 5 6) @ iso_offset False 10 0"
  "''2001-02-03T04:05:06Z'' = iso_seconds (sample_dt 4 5 6) @ ''Z''"
  "''2001-02-03T07:05:06Z'' = iso_seconds (sample_dt 7 5 6) @ ''Z''"
  "''2001-02-03T04:05:06'' = iso_seconds (sample_dt 4 5 6)"
  by (simp_all add: iso_seconds_def iso_offset_def sample_dt_def pad4_def pad2_def digit_chars)

lemma sample_fraction_strings:
  "''2001-02-03T04:05:06.123456'' =
     iso_seconds (sample_dt 4 5 6\<lparr>microsecond := 123456\<rparr>) @
     iso_fraction (sample_dt 4 5 6\<lparr>microsecond := 123456\<rparr>)"
  "''2001-02-03T04:05:06.123456Z'' =
     iso_seconds (sample_dt 4 5 6\<lparr>microsecond := 123456\<rparr>) @
     iso_fraction (sample_dt 4 5 6\<lparr>microsecond := 123456\<rparr>) @ ''Z''"
  "''2001-02-03T04:05:06.123456-03:00'' =
     iso_seconds (sample_dt 4 5 6\<lparr>microsecond := 123456\<rparr>) @
     iso_fraction (sample_dt 4 5 6\<lparr>microsecond := 123456\<rparr>) @ iso_offset True 3 0"
  by (simp_all add: iso_seconds_def iso_fraction_def iso_offset_def sample_dt_def pad6_def
      pad4_def pad2_def digit_chars)






section \<open>Properties of the event normalizer\<close>

text \<open>
  Claim C2. On a list of raw events, each with a \<open>status\<close> key and with a self-attendee
  whenever it passes the busy and confirmation filters, \<open>clean_events\<close> returns, in the
  order of the input, exactly the canonical records of the events that are not
  transparent, are confirmed and whose self-response is \<open>accepted\<close>; every other event
  is left out.
\<close>

theorem clean_events_filters_in_order:
  assumes "\<forall>ee \<in> set events.
             wf_raw_event ee \<and> has_status ee \<and> (passes_first_two ee \<longrightarrow> has_self_attendee ee)"
  shows "clean_events events = Inr (map canonical_event (filter kept events))"
proof -
  have step: "clean_event default_keys ee = Inr (if kept ee then Some (canonical_event ee) else None)"
    if "ee \<in> set events" for ee
  proof -
    from assms that have wf: "wf_raw_event ee" and st: "has_status ee"
      and self: "passes_first_two ee \<longrightarrow> has_self_attendee ee" by blast+
    from wf obtain d where ee: "ee = VDict d" by (cases ee) (simp_all add: wf_raw_event_def)
    from st ee obtain s where s: "map_of d ''status'' = Some s" by (auto simp: has_status_def)
    have sr: "self_response d \<noteq> None" if "is_busy d" "is_confirmed d"
    proof -
      from that self ee have "list_ex is_self (raw_attendees d)"
        by (simp add: passes_first_two_def has_self_attendee_def)
      then show ?thesis
        by (auto simp: self_response_def find_None_iff list_ex_iff)
    qed
    show ?thesis
      using clean_event_wf[OF wf[unfolded ee]] s sr unfolding ee
      by (auto simp: kept_def is_confirmed_def)
  qed
  have "set evs \<subseteq> set events \<Longrightarrow>
        clean_events_loop default_keys evs [] = Inr (map canonical_event (filter kept evs))" for evs
  proof (induction evs)
    case Nil
    then show ?case by simp
  next
    case (Cons ee evs)
    then have "ee \<in> set events" and "set evs \<subseteq> set events" by simp_all
    then show ?case unfolding loop_Cons using step[of ee] Cons.IH by simp
  qed
  then show ?thesis by (simp add: clean_events_def clean_events_keys_def)
qed

theorem clean_events_filters_in_order_witness:
  "list_all (\<lambda>ee. wf_raw_event ee \<and> has_status ee \<and>
                 (passes_first_two ee \<longrightarrow> has_self_attendee ee)) sample_events
   \<and> clean_events sample_events = Inr sample_cleaned"
proof -
  have h: "list_all (\<lambda>ee. wf_raw_event ee \<and> has_status ee \<and>
                 (passes_first_two ee \<longrightarrow> has_self_attendee ee)) sample_events"
    by code_simp
  have "map canonical_event (filter kept sample_events) = sample_cleaned"
    by code_simp
  with clean_events_filters_in_order[OF h[unfolded list_all_iff]] h show ?thesis by simp
qed

text \<open>
  Claim C3. For every event kept by \<open>clean_events\<close>, the \<open>summary\<close> of its output record
  is the default status when the event's \<open>visibility\<close> is exactly \<open>private\<close>, and the
  original title otherwise (the empty string included, which is also what a missing title
  reads as). The output records correspond, in order, to the events the loop keeps.
\<close>

theorem private_summary_replaced:
  assumes "clean_events events = Inr out"
  shows "list_all2 (\<lambda>ee r. py_item r ''summary'' = Inr (expected_summary ee))
           (filter survives events) out"
proof -
  have loop: "clean_events_loop default_keys events [] = Inr out"
    using assms by (simp add: clean_events_def clean_events_keys_def)
  have eq: "filter survives events = filter (\<lambda>ee. clean_event default_keys ee \<noteq> Inr None) events"
  proof (rule filter_cong[OF refl])
    fix ee assume "ee \<in> set events"
    then obtain x where "clean_event default_keys ee = Inr x" using loop_no_error[OF loop] by blast
    then show "survives ee = (clean_event default_keys ee \<noteq> Inr None)"
      by (cases x) (simp_all add: survives_def)
  qed
  have key: "py_item r ''summary'' = Inr (expected_summary ee)"
    if "clean_event default_keys ee = Inr (Some r)" for ee r
  proof -
    from clean_event_Some[OF that] obtain d a b where
      "ee = VDict d" "r = VDict (clean_record d a b (VStr ''accepted''))" by blast
    then show ?thesis
      by (simp add: clean_record_def expected_summary_def py_item_def dict_item_def)
  qed
  show ?thesis unfolding eq
    by (rule list_all2_mono[OF loop_result[OF loop]]) (rule key)
qed

theorem private_summary_replaced_witness:
  "clean_events sample_events = Inr sample_cleaned \<and>
   list_all2 (\<lambda>ee r. py_item r ''summary'' = Inr (expected_summary ee))
     (filter survives sample_events) sample_cleaned \<and>
   map expected_summary (filter survives sample_events) = [VStr ''My event name'', VStr ''busy'']"
proof -
  have h: "clean_events sample_events = Inr sample_cleaned" by code_simp
  have "map expected_summary (filter survives sample_events) = [VStr ''My event name'', VStr ''busy'']"
    by code_simp
  with private_summary_replaced[OF h] h show ?thesis by simp
qed

text \<open>
  Claim C6. A raw event that passes the busy and confirmation filters and has no attendee
  record with \<open>self\<close> true (no attendees at all included) makes \<open>clean_events\<close> fail with
  \<open>IndexError\<close>, whatever follows it in the list, once the events before it have been
  processed without an exception.
\<close>

theorem missing_self_attendee_raises:
  assumes "clean_events before = Inr out"
    and "wf_raw_event ee" and "passes_first_two ee" and "\<not> has_self_attendee ee"
  shows "clean_events (before @ ee # after) = Inl IndexError"
proof -
  from assms(2) obtain d where ee: "ee = VDict d" by (cases ee) (simp_all add: wf_raw_event_def)
  from assms(3,4) ee have b: "is_busy d" and c: "is_confirmed d"
    and n: "\<not> list_ex is_self (raw_attendees d)"
    by (simp_all add: passes_first_two_def has_self_attendee_def)
  from n have "self_response d = None"
    by (auto simp: self_response_def find_None_iff list_ex_iff)
  with b c have "clean_event default_keys ee = Inl IndexError"
    using clean_event_wf[OF assms(2)[unfolded ee]] unfolding ee
    by (simp add: is_confirmed_def)
  then have "clean_events_loop default_keys (ee # after) [] = Inl IndexError"
    unfolding loop_Cons by simp
  then show ?thesis using assms(1)
    by (simp add: clean_events_def clean_events_keys_def loop_append)
qed

theorem missing_self_attendee_raises_witness:
  "clean_events [VDict sample_event] = Inr [VDict sample_clean] \<and>
   wf_raw_event (VDict (AList.delete ''attendees'' sample_event)) \<and>
   passes_first_two (VDict (AList.delete ''attendees'' sample_event)) \<and>
   \<not> has_self_attendee (VDict (AList.delete ''attendees'' sample_event)) \<and>
   clean_events ([VDict sample_event] @ VDict (AList.delete ''attendees'' sample_event)
                   # [VDict sample_event]) = Inl IndexError"
proof -
  have 1: "clean_events [VDict sample_event] = Inr [VDict sample_clean]" by code_simp
  have 2: "wf_raw_event (VDict (AList.delete ''attendees'' sample_event))" by code_simp
  have 3: "passes_first_two (VDict (AList.delete ''attendees'' sample_event))" by code_simp
  have 4: "\<not> has_self_attendee (VDict (AList.delete ''attendees'' sample_event))" by code_simp
  from missing_self_attendee_raises[OF 1 2 3 4, of "[VDict sample_event]"] 1 2 3 4
  show ?thesis by simp
qed

text \<open>
  Claim C7. Whenever \<open>clean_events\<close> returns normally, every record of its output has
  exactly the keys \<open>summary\<close>, \<open>start\<close>, \<open>end\<close>, \<open>status\<close>, \<open>transparency\<close>,
  \<open>visibility\<close>, \<open>responseStatus\<close> (in this order, each once) and no key \<open>attendees\<close>.
\<close>

theorem output_keys_exact:
  assumes "clean_events events = Inr out"
  shows "\<forall>r \<in> set out. py_keys r = canonical_keys \<and> ''attendees'' \<notin> set (py_keys r) \<and>
           set (py_keys r) = {''summary'', ''start'', ''end'', ''status'', ''transparency'',
             ''visibility'', ''responseStatus''}"
proof
  fix r assume r: "r \<in> set out"
  have loop: "clean_events_loop default_keys events [] = Inr out"
    using assms by (simp add: clean_events_def clean_events_keys_def)
  from loop_result[OF loop] r obtain ee where "clean_event default_keys ee = Inr (Some r)"
    by (auto simp: list_all2_conv_all_nth in_set_conv_nth)
  from clean_event_Some[OF this] obtain d a b where
    "r = VDict (clean_record d a b (VStr ''accepted''))" by blast
  then have k: "py_keys r = canonical_keys"
    by (simp add: py_keys_def clean_record_def canonical_keys_def)
  show "py_keys r = canonical_keys \<and> ''attendees'' \<notin> set (py_keys r) \<and>
           set (py_keys r) = {''summary'', ''start'', ''end'', ''status'', ''transparency'',
             ''visibility'', ''responseStatus''}"
    unfolding k by (simp add: canonical_keys_def)
qed

theorem output_keys_exact_witness:
  "clean_events sample_events = Inr sample_cleaned \<and>
   list_all (\<lambda>r. py_keys r = canonical_keys \<and> ''attendees'' \<notin> set (py_keys r) \<and>
           set (py_keys r) = {''summary'', ''start'', ''end'', ''status'', ''transparency'',
             ''visibility'', ''responseStatus''}) sample_cleaned"
proof -
  have h: "clean_events sample_events = Inr sample_cleaned" by code_simp
  from output_keys_exact[OF h] h show ?thesis unfolding list_all_iff by blast
qed

text \<open>
  Claim C9, as stated, fails: \<open>read_value\<close> does not return normally for every dictionary
  and key path. When an intermediate key is present and holds something that is not a
  dictionary (here a date string under \<open>start\<close>), the nested lookup raises
  \<open>AttributeError\<close>.
\<close>

theorem read_value_raises_on_non_dict:
  "read_value (VDict [(''start'', VStr ''2019-02-21'')]) (KTuple [''start'', ''dateTime''])
     = Inl AttributeError"
  by (simp add: read_value_def py_get_def dict_get_def)

text \<open>
  Claim C9, amended. For a dictionary and a non-empty key path along which every value
  reached at an intermediate key is a dictionary, \<open>read_value\<close> returns normally: the
  value at the end of the path when all its keys are present, the empty string as soon as
  an intermediate or the final key is missing. When some intermediate key is present
  and holds something that is not a dictionary, \<open>read_value\<close> raises \<open>AttributeError\<close>.
  For a string key it always returns normally.
\<close>

theorem read_value_follows_path:
  assumes "ks \<noteq> []"
  shows "(inner_dicts (VDict d) ks \<longrightarrow>
            read_value (VDict d) (KTuple ks) =
              Inr (case lookup_path (VDict d) ks of None \<Rightarrow> VStr [] | Some v \<Rightarrow> v))
         \<and> (\<not> inner_dicts (VDict d) ks \<longrightarrow>
              read_value (VDict d) (KTuple ks) = Inl AttributeError)
         \<and> read_value (VDict d) (KStr k) =
           Inr (case lookup_path (VDict d) [k] of None \<Rightarrow> VStr [] | Some v \<Rightarrow> v)"
proof (intro conjI impI)
  assume "inner_dicts (VDict d) ks"
  from read_value_tuple_lookup[OF assms _ this]
  show "read_value (VDict d) (KTuple ks) =
           Inr (case lookup_path (VDict d) ks of None \<Rightarrow> VStr [] | Some v \<Rightarrow> v)"
    by (simp add: read_value_def is_dict_def)
next
  assume "\<not> inner_dicts (VDict d) ks"
  from read_value_tuple_blocked[OF assms this]
  show "read_value (VDict d) (KTuple ks) = Inl AttributeError"
    by (simp add: read_value_def)
next
  show "read_value (VDict d) (KStr k) =
           Inr (case lookup_path (VDict d) [k] of None \<Rightarrow> VStr [] | Some v \<Rightarrow> v)"
    by (simp add: read_value_def py_get_def dict_get_def split: option.splits)
qed

theorem read_value_follows_path_witness:
  "inner_dicts (VDict sample_event) [''start'', ''dateTime''] \<and>
   inner_dicts (VDict sample_event) [''organizer'', ''email''] \<and>
   \<not> inner_dicts (VDict sample_event) [''summary'', ''text''] \<and>
   read_value (VDict sample_event) (KTuple [''start'', ''dateTime'']) = Inr (VStr ''2001-02-03T20:00:00'') \<and>
   read_value (VDict sample_event) (KTuple [''organizer'', ''email'']) = Inr (VStr []) \<and>
   read_value (VDict sample_event) (KTuple [''summary'', ''text'']) = Inl AttributeError \<and>
   read_value (VDict sample_event) (KStr ''location'') = Inr (VStr [])"
proof -
  have 1: "inner_dicts (VDict sample_event) [''start'', ''dateTime'']" by code_simp
  have 2: "inner_dicts (VDict sample_event) [''organizer'', ''email'']" by code_simp
  have 3: "lookup_path (VDict sample_event) [''start'', ''dateTime''] = Some (VStr ''2001-02-03T20:00:00'')"
    by code_simp
  have 4: "lookup_path (VDict sample_event) [''organizer'', ''email''] = None" by code_simp
  have 5: "lookup_path (VDict sample_event) [''location''] = None" by code_simp
  have 6: "\<not> inner_dicts (VDict sample_event) [''summary'', ''text'']" by code_simp
  have ne: "[a, b] \<noteq> []" for a b :: string by simp
  from read_value_follows_path[OF ne, of sample_event "''start''" "''dateTime''" "''location''"]
    read_value_follows_path[OF ne, of sample_event "''organizer''" "''email''" "''location''"]
    read_value_follows_path[OF ne, of sample_event "''summary''" "''text''" "''location''"]
    1 2 3 4 5 6
  show ?thesis by simp
qed

section \<open>Properties of timestamp parsing and of the window evaluator\<close>




text \<open>
  Claim C4. \<open>strptime\<close> on the three shapes of a timestamp: with the suffix \<open>Z\<close> the
  result is the wall-clock time written, carrying UTC; with a suffix \<open>\<plusminus>HH:MM\<close> it is the
  wall-clock time written, carrying that fixed offset, so that its instant is the one of
  the same reading in UTC less the offset; with neither suffix it is naive. A \<open>.\<close> at
  index 19, followed by six digits, is read as the microseconds in each of the three
  shapes; without it the microseconds are 0.
\<close>

theorem strptime_shapes:
  assumes "valid_datetime dt" and "hh \<le> 23" and "mm \<le> 59"
  shows "strptime (iso_seconds dt @ ''Z'') = Inr (dt\<lparr>microsecond := 0, tzinfo := Some 0\<rparr>)
       \<and> strptime (iso_seconds dt @ iso_offset neg hh mm) =
           Inr (dt\<lparr>microsecond := 0, tzinfo := Some (offset_us neg hh mm)\<rparr>)
       \<and> strptime (iso_seconds dt) = Inr (dt\<lparr>microsecond := 0, tzinfo := None\<rparr>)
       \<and> strptime (iso_seconds dt @ iso_fraction dt @ ''Z'') = Inr (dt\<lparr>tzinfo := Some 0\<rparr>)
       \<and> strptime (iso_seconds dt @ iso_fraction dt @ iso_offset neg hh mm) =
           Inr (dt\<lparr>tzinfo := Some (offset_us neg hh mm)\<rparr>)
       \<and> strptime (iso_seconds dt @ iso_fraction dt) = Inr (dt\<lparr>tzinfo := None\<rparr>)
       \<and> instant (dt\<lparr>microsecond := 0, tzinfo := Some (offset_us neg hh mm)\<rparr>) =
           instant (dt\<lparr>microsecond := 0, tzinfo := Some 0\<rparr>) - offset_us neg hh mm"
proof -
  have "instant (dt\<lparr>microsecond := 0, tzinfo := Some (offset_us neg hh mm)\<rparr>) =
           instant (dt\<lparr>microsecond := 0, tzinfo := Some 0\<rparr>) - offset_us neg hh mm"
    by (simp add: instant_def wall_us_def toordinal_def)
  then show ?thesis
    using strptime_Z[OF assms(1)] strptime_offset[OF assms] strptime_naive[OF assms(1)]
      strptime_frac_Z[OF assms(1)] strptime_frac_offset[OF assms] strptime_frac_naive[OF assms(1)]
    by simp
qed

theorem strptime_shapes_witness:
  "valid_datetime (sample_dt 4 5 6) \<and> (3 :: nat) \<le> 23 \<and> (0 :: nat) \<le> 59 \<and>
   strptime ''2001-02-03T04:05:06Z'' = Inr (sample_dt 4 5 6\<lparr>tzinfo := Some 0\<rparr>) \<and>
   strptime ''2001-02-03T04:05:06-03:00'' = Inr (sample_dt 4 5 6\<lparr>tzinfo := Some (- 10800000000)\<rparr>) \<and>
   strptime ''2001-02-03T04:05:06'' = Inr (sample_dt 4 5 6) \<and>
   strptime ''2001-02-03T07:05:06Z'' = Inr (sample_dt 7 5 6\<lparr>tzinfo := Some 0\<rparr>) \<and>
   strptime ''2001-02-03T04:05:06.123456Z'' =
     Inr (sample_dt 4 5 6\<lparr>microsecond := 123456, tzinfo := Some 0\<rparr>) \<and>
   strptime ''2001-02-03T04:05:06.123456-03:00'' =
     Inr (sample_dt 4 5 6\<lparr>microsecond := 123456, tzinfo := Some (- 10800000000)\<rparr>) \<and>
   strptime ''2001-02-03T04:05:06.123456'' = Inr (sample_dt 4 5 6\<lparr>microsecond := 123456\<rparr>) \<and>
   instant (sample_dt 4 5 6\<lparr>tzinfo := Some (- 10800000000)\<rparr>) =
     instant (sample_dt 7 5 6\<lparr>tzinfo := Some 0\<rparr>)"
proof -
  have v: "valid_datetime (sample_dt 4 5 6)" "valid_datetime (sample_dt 7 5 6)"
    "valid_datetime (sample_dt 4 5 6\<lparr>microsecond := 123456\<rparr>)"
    by (simp_all add: valid_sample_dt valid_sample_us)
  have o: "offset_us True 3 0 = - 10800000000" by (simp add: offset_us_def)
  have n: "(3 :: nat) \<le> 23" "(0 :: nat) \<le> 59" by simp_all
  note a = strptime_shapes[OF v(1) n, of True]
  note b = strptime_shapes[OF v(2) n, of True]
  note c = strptime_shapes[OF v(3) n, of True]
  have "strptime ''2001-02-03T04:05:06Z'' = Inr (sample_dt 4 5 6\<lparr>tzinfo := Some 0\<rparr>)"
    unfolding sample_strings(5) using a by (simp add: sample_dt_clear)
  moreover
  have "strptime ''2001-02-03T04:05:06-03:00'' =
          Inr (sample_dt 4 5 6\<lparr>tzinfo := Some (- 10800000000)\<rparr>)"
    unfolding sample_strings(3) using a by (simp add: sample_dt_clear o)
  moreover
  have "strptime ''2001-02-03T04:05:06'' = Inr (sample_dt 4 5 6)"
    unfolding sample_strings(7) using a by (simp add: sample_dt_clear)
  moreover
  have "strptime ''2001-02-03T07:05:06Z'' = Inr (sample_dt 7 5 6\<lparr>tzinfo := Some 0\<rparr>)"
    unfolding sample_strings(6) using b by (simp add: sample_dt_clear)
  moreover
  have "strptime ''2001-02-03T04:05:06.123456Z'' =
          Inr (sample_dt 4 5 6\<lparr>microsecond := 123456, tzinfo := Some 0\<rparr>)"
    unfolding sample_fraction_strings(2) using c by simp
  moreover
  have "strptime ''2001-02-03T04:05:06.123456-03:00'' =
          Inr (sample_dt 4 5 6\<lparr>microsecond := 123456, tzinfo := Some (- 10800000000)\<rparr>)"
    unfolding sample_fraction_strings(3) using c by (simp add: o)
  moreover
  have "strptime ''2001-02-03T04:05:06.123456'' = Inr (sample_dt 4 5 6\<lparr>microsecond := 123456\<rparr>)"
    unfolding sample_fraction_strings(1) using c by (simp add: sample_dt_def)
  moreover
  have "instant (sample_dt 4 5 6\<lparr>tzinfo := Some (- 10800000000)\<rparr>) =
           instant (sample_dt 7 5 6\<lparr>tzinfo := Some 0\<rparr>)"
    by (simp add: instant_sample)
  ultimately show ?thesis using v(1) by simp
qed

text \<open>
  Claim C5. With \<open>minutes_before\<close> below 0, an \<open>int\<close> or a \<open>float\<close>, \<open>is_within_next_event\<close>
  fails with the assertion error whose message contains the parameter name
  \<open>minutes_before\<close>, whatever \<open>now\<close> and the event are: the check comes before the event
  is looked at and before any timestamp is parsed.
\<close>

theorem negative_minutes_rejected:
  assumes "is_negative mb"
  shows "is_within_next_event now ev mb = Inl (AssertionError assert_message)
         \<and> sublist ''minutes_before'' assert_message"
proof -
  have "assert_message = ''`'' @ ''minutes_before'' @ ''` must be a non-negative number.''"
    by (simp add: assert_message_def)
  then have "sublist ''minutes_before'' assert_message"
    unfolding sublist_def by blast
  with negative_not_ge_zero[OF assms] show ?thesis by (simp add: is_within_next_event_def)
qed

theorem negative_minutes_rejected_witness:
  "is_negative (PInt (- 1)) \<and> is_negative (PFloat (FVal (- 1 / 2))) \<and>
   is_within_next_event None sample_next_event (PInt (- 1)) = Inl (AssertionError assert_message) \<and>
   is_within_next_event None VNone (PInt (- 1)) = Inl (AssertionError assert_message) \<and>
   is_within_next_event None sample_next_event (PFloat (FVal (- 1 / 2))) =
     Inl (AssertionError assert_message) \<and>
   sublist ''minutes_before'' assert_message"
proof -
  have n: "is_negative (PInt (- 1))" "is_negative (PFloat (FVal (- 1 / 2)))"
    by (simp_all add: is_negative_def)
  from negative_minutes_rejected[OF n(1), of None sample_next_event]
    negative_minutes_rejected[OF n(1), of None VNone]
    negative_minutes_rejected[OF n(2), of None sample_next_event] n
  show ?thesis by simp
qed

text \<open>
  Claim C8. With \<open>minutes_before\<close> at least 0 and an event argument that is empty or
  absent (a value Python takes as false, such as \<open>{}\<close> or \<open>None\<close>),
  \<open>is_within_next_event\<close> returns false for every \<open>now\<close>, \<open>None\<close> included: no timestamp
  is parsed or compared and nothing is raised.
\<close>

theorem empty_event_is_outside:
  assumes "ge_zero mb" and "\<not> truthy ev"
  shows "is_within_next_event now ev mb = Inr False"
  using assms by (simp add: is_within_next_event_def)

theorem empty_event_is_outside_witness:
  "ge_zero MINUTES_BEFORE \<and> ge_zero (PInt 0) \<and> \<not> truthy (VDict []) \<and> \<not> truthy VNone \<and>
   is_within_next_event None (VDict []) MINUTES_BEFORE = Inr False \<and>
   is_within_next_event None VNone MINUTES_BEFORE = Inr False \<and>
   is_within_next_event None (VDict []) (PInt 0) = Inr False"
proof -
  have g: "ge_zero MINUTES_BEFORE" "ge_zero (PInt 0)"
    by (simp_all add: ge_zero_def MINUTES_BEFORE_def)
  from empty_event_is_outside[OF g(1), of "VDict []" None]
    empty_event_is_outside[OF g(1), of VNone None]
    empty_event_is_outside[OF g(2), of "VDict []" None] g
  show ?thesis by simp
qed

text \<open>
  Claim C10. A raw event of the data model that passes the three filters and whose
  \<open>start\<close> or \<open>end\<close> lacks a nested \<open>dateTime\<close> (the date-only shape of an all-day event)
  is turned by \<open>clean_events\<close> into a record, not empty, whose \<open>start\<close> (respectively
  \<open>end\<close>) is the empty string; \<open>is_within_next_event\<close> on that record raises for every
  \<open>now\<close> and \<open>minutes_before\<close> instead of returning a boolean, with \<open>IndexError\<close> (from
  \<open>str_time[-1]\<close> on the empty string) when it is \<open>start\<close> that is empty and
  \<open>minutes_before\<close> is at least 0.
\<close>

theorem all_day_event_fails:
  assumes "wf_raw_event (VDict d)" and "kept (VDict d)"
    and "lacks_dateTime d ''start'' \<or> lacks_dateTime d ''end''"
  shows "clean_events [VDict d] = Inr [canonical_event (VDict d)]
         \<and> truthy (canonical_event (VDict d))
         \<and> (lacks_dateTime d ''start'' \<longrightarrow>
              py_item (canonical_event (VDict d)) ''start'' = Inr (VStr []))
         \<and> (lacks_dateTime d ''end'' \<longrightarrow>
              py_item (canonical_event (VDict d)) ''end'' = Inr (VStr []))
         \<and> (\<forall>now mb. \<exists>e. is_within_next_event now (canonical_event (VDict d)) mb = Inl e)
         \<and> (lacks_dateTime d ''start'' \<longrightarrow>
              (\<forall>now mb. ge_zero mb \<longrightarrow>
                 is_within_next_event now (canonical_event (VDict d)) mb = Inl IndexError))"
proof -
  obtain c where c: "canonical_event (VDict d) = VDict c"
    and s: "map_of c ''start'' = Some (nested_field d ''start'' ''dateTime'')"
    and e: "map_of c ''end'' = Some (nested_field d ''end'' ''dateTime'')"
    and ne: "c \<noteq> []"
    by (simp add: canonical_event_def)
  have s': "map_of c ''start'' = Some (VStr [])" if "lacks_dateTime d ''start''"
    using that s by (simp add: lacks_dateTime_def nested_field_lacking)
  have e': "map_of c ''end'' = Some (VStr [])" if "lacks_dateTime d ''end''"
    using that e by (simp add: lacks_dateTime_def nested_field_lacking)
  have fails: "\<exists>e. is_within_next_event now (VDict c) mb = Inl e" for now mb
  proof (cases "ge_zero mb")
    case False
    then show ?thesis by (simp add: is_within_next_event_def)
  next
    case True
    from assms(3) show ?thesis
    proof
      assume "lacks_dateTime d ''start''"
      from within_empty_start[OF True s'[OF this]] show ?thesis by blast
    next
      assume "lacks_dateTime d ''end''"
      from within_empty_end[OF s e'[OF this]] show ?thesis .
    qed
  qed
  show ?thesis
    unfolding c using clean_events_single[OF assms(1,2)] c ne s' e' fails within_empty_start
    by (simp add: py_item_def dict_item_def)
qed

theorem all_day_event_fails_witness:
  "wf_raw_event (VDict all_day_event) \<and> kept (VDict all_day_event) \<and>
   lacks_dateTime all_day_event ''start'' \<and>
   clean_events [VDict all_day_event] = Inr [VDict (AList.update ''start'' (VStr []) sample_clean)] \<and>
   is_within_next_event (Some (sample_dt 20 0 0)) (VDict (AList.update ''start'' (VStr []) sample_clean))
     MINUTES_BEFORE = Inl IndexError"
proof -
  have w: "wf_raw_event (VDict all_day_event)" by code_simp
  have k: "kept (VDict all_day_event)" by code_simp
  have l: "lacks_dateTime all_day_event ''start''" by code_simp
  have c: "canonical_event (VDict all_day_event) = VDict (AList.update ''start'' (VStr []) sample_clean)"
    by code_simp
  have g: "ge_zero MINUTES_BEFORE" by (simp add: ge_zero_def MINUTES_BEFORE_def)
  from all_day_event_fails[OF w k disjI1[OF l]] w k l g show ?thesis
    unfolding c by simp
qed

end
